theory Spec2Isabelle
  imports Main "HOL-Library.AList" "HOL-Library.Word"
begin

section \<open>Core types of the Helix virtual memory (franken.py, parts 1, 3 and 4)\<close>

text \<open>
  Payloads are Python values of any type: the cache is polymorphic in \<open>'a\<close>, and a value
  of type \<open>'a option\<close> stands for a Python value that may be \<^verbatim>\<open>None\<close>. \<^verbatim>\<open>bytes\<close>
  are lists of 8-bit words. Sizes, capacities and budgets are Python integers.
  The wall-clock fields (\<^verbatim>\<open>last_access\<close>, \<^verbatim>\<open>created_at\<close>) are written but never read
  by the code and are left out; the locks are left out as well, every call running to
  completion.
\<close>

type_synonym byte = "8 word"
type_synonym bytes = "byte list"

text \<open>
  \<^verbatim>\<open>pickle\<close> and \<^verbatim>\<open>zlib\<close> are libraries outside the repository: they are a parameter of
  the model. \<open>None\<close> as a result means that the call raises.
\<close>

record 'a codec =
  pickle_dumps :: "'a option \<Rightarrow> bytes option"
  pickle_loads :: "bytes \<Rightarrow> 'a option option"
  zlib_compress :: "bytes \<Rightarrow> bytes"
  zlib_decompress :: "bytes \<Rightarrow> bytes option"

datatype MemoryTier = L1_HOT | L2_WARM | L3_COMPRESSED | L4_COLD | L5_DISK

record 'a CacheBlock =
  key :: string
  data :: "'a option"
  tier :: MemoryTier
  size_bytes :: int
  access_count :: nat
  compressed :: bool
  compressed_data :: "bytes option"

text \<open>Truth value of an \<^verbatim>\<open>Optional[bytes]\<close>: neither \<^verbatim>\<open>None\<close> nor empty.\<close>

definition truthy :: "bytes option \<Rightarrow> bool" where
  "truthy b = (case b of None \<Rightarrow> False | Some xs \<Rightarrow> xs \<noteq> [])"

definition access :: "'a CacheBlock \<Rightarrow> 'a CacheBlock" where
  "access b = b\<lparr>access_count := access_count b + 1\<rparr>"

text \<open>\<^verbatim>\<open>CacheBlock.compress\<close>: returns the bytes saved and the block as it is afterwards.\<close>

definition compress :: "'a codec \<Rightarrow> 'a CacheBlock \<Rightarrow> int \<times> 'a CacheBlock" where
  "compress c b =
     (if \<not> compressed b \<and> data b \<noteq> None then
        (case pickle_dumps c (data b) of
           None \<Rightarrow> (0, b)
         | Some serialized \<Rightarrow>
             (let cd = zlib_compress c serialized;
                  saved = size_bytes b - int (length cd)
              in (max 0 saved, b\<lparr>compressed_data := Some cd, compressed := True\<rparr>)))
      else (0, b))"

definition decompress :: "'a codec \<Rightarrow> 'a CacheBlock \<Rightarrow> 'a CacheBlock" where
  "decompress c b =
     (if compressed b \<and> truthy (compressed_data b) then
        (case zlib_decompress c (the (compressed_data b)) of
           None \<Rightarrow> b
         | Some serialized \<Rightarrow>
             (case pickle_loads c serialized of
                None \<Rightarrow> b
              | Some d \<Rightarrow> b\<lparr>data := d, compressed := False, compressed_data := None\<rparr>))
      else b)"

subsection \<open>Ordered dictionaries\<close>

text \<open>
  An \<^verbatim>\<open>OrderedDict\<close> is an association list, oldest entry first. \<^verbatim>\<open>d[k] = v\<close> is
  \<^const>\<open>AList.update\<close> (an existing key keeps its place, a new one goes to the end),
  \<^verbatim>\<open>d.pop(k, None)\<close> is \<^const>\<open>AList.delete\<close>, \<^verbatim>\<open>k in d\<close> is a lookup with \<^const>\<open>map_of\<close>.
\<close>

type_synonym 'a tier_dict = "(string \<times> 'a CacheBlock) list"

definition move_to_end :: "string \<Rightarrow> 'a tier_dict \<Rightarrow> 'a tier_dict" where
  "move_to_end k d =
     (case map_of d k of None \<Rightarrow> d | Some b \<Rightarrow> AList.delete k d @ [(k, b)])"

subsection \<open>HelixCache\<close>

datatype cache_stat =
  l1_hits | l1_misses | l2_hits | l2_misses | l3_hits | l3_misses
  | promotions | demotions | evictions | compressions

record 'a HelixCache =
  l1_max :: int
  l2_max :: int
  l3_max :: int
  l1_cache :: "'a tier_dict"
  l2_cache :: "'a tier_dict"
  l3_cache :: "'a tier_dict"
  stats :: "cache_stat \<Rightarrow> nat"

definition HelixCache_init :: "int \<Rightarrow> int \<Rightarrow> int \<Rightarrow> 'a HelixCache" where
  "HelixCache_init l1_mb l2_mb l3_mb =
     \<lparr>l1_max = l1_mb * 1024 * 1024, l2_max = l2_mb * 1024 * 1024,
      l3_max = l3_mb * 1024 * 1024,
      l1_cache = [], l2_cache = [], l3_cache = [], stats = (\<lambda>_. 0)\<rparr>"

definition stat_inc :: "cache_stat \<Rightarrow> 'a HelixCache \<Rightarrow> 'a HelixCache" where
  "stat_inc k s = s\<lparr>stats := (stats s)(k := stats s k + 1)\<rparr>"

definition block_size :: "'a CacheBlock \<Rightarrow> int" where
  "block_size b =
     (if compressed b \<and> truthy (compressed_data b)
      then int (length (the (compressed_data b))) else size_bytes b)"

definition get_tier_size :: "'a tier_dict \<Rightarrow> int" where
  "get_tier_size d = sum_list (map (\<lambda>(k, b). block_size b) d)"

function make_room_l3 :: "int \<Rightarrow> 'a HelixCache \<Rightarrow> 'a HelixCache" where
  "make_room_l3 needed s =
     (if get_tier_size (l3_cache s) + needed > l3_max s \<and> l3_cache s \<noteq> [] then
        make_room_l3 needed
          (stat_inc evictions
             (s\<lparr>l3_cache := AList.delete (fst (hd (l3_cache s))) (l3_cache s)\<rparr>))
      else s)"
  by pat_completeness auto

termination make_room_l3
proof (relation "measure (\<lambda>(needed, s). length (l3_cache s))")
  show "wf (measure (\<lambda>(needed, s :: 'a HelixCache). length (l3_cache s)))"
    by simp
next
  fix needed :: int and s :: "'a HelixCache"
  assume "l3_max s < get_tier_size (l3_cache s) + needed \<and> l3_cache s \<noteq> []"
  then have "length (AList.delete (fst (hd (l3_cache s))) (l3_cache s)) < length (l3_cache s)"
    by (cases "l3_cache s") (auto simp: less_Suc_eq_le length_delete_le)
  then show "((needed, stat_inc evictions
        (s\<lparr>l3_cache := AList.delete (fst (hd (l3_cache s))) (l3_cache s)\<rparr>)), needed, s)
      \<in> measure (\<lambda>(needed, s). length (l3_cache s))"
    by (simp add: stat_inc_def)
qed

declare make_room_l3.simps [simp del]

definition demote_to_l3 ::
  "'a codec \<Rightarrow> string \<Rightarrow> 'a CacheBlock \<Rightarrow> 'a HelixCache \<Rightarrow> 'a HelixCache" where
  "demote_to_l3 c k block s =
     (let s1 = s\<lparr>l2_cache := AList.delete k (l2_cache s)\<rparr>;
          (saved, b1) = compress c block;
          s2 = (if saved > 0 then stat_inc compressions s1 else s1);
          sz = (if truthy (compressed_data b1)
                then int (length (the (compressed_data b1))) else size_bytes b1);
          s3 = make_room_l3 sz s2;
          b2 = b1\<lparr>tier := L3_COMPRESSED\<rparr>
      in stat_inc demotions (s3\<lparr>l3_cache := AList.update k b2 (l3_cache s3)\<rparr>))"

function make_room_l2 :: "'a codec \<Rightarrow> int \<Rightarrow> 'a HelixCache \<Rightarrow> 'a HelixCache" where
  "make_room_l2 c needed s =
     (if get_tier_size (l2_cache s) + needed > l2_max s \<and> l2_cache s \<noteq> [] then
        make_room_l2 c needed
          (demote_to_l3 c (fst (hd (l2_cache s))) (snd (hd (l2_cache s))) s)
      else s)"
  by pat_completeness auto

termination make_room_l2
proof (relation "measure (\<lambda>(c, needed, s). length (l2_cache s))")
  show "wf (measure (\<lambda>(c :: 'a codec, needed :: int, s :: 'a HelixCache). length (l2_cache s)))"
    by simp
next
  fix c :: "'a codec" and needed :: int and s :: "'a HelixCache"
  assume "l2_max s < get_tier_size (l2_cache s) + needed \<and> l2_cache s \<noteq> []"
  then have less: "length (AList.delete (fst (hd (l2_cache s))) (l2_cache s)) < length (l2_cache s)"
    by (cases "l2_cache s") (auto simp: less_Suc_eq_le length_delete_le)
  have room: "l2_cache (make_room_l3 n u) = l2_cache u" for n and u :: "'a HelixCache"
    by (induction n u rule: make_room_l3.induct)
       (subst make_room_l3.simps, simp add: stat_inc_def)
  have "l2_cache (demote_to_l3 c k b s) = AList.delete k (l2_cache s)" for k b
    by (simp add: demote_to_l3_def Let_def stat_inc_def room split: prod.splits)
  with less show "((c, needed,
        demote_to_l3 c (fst (hd (l2_cache s))) (snd (hd (l2_cache s))) s), c, needed, s)
      \<in> measure (\<lambda>(c, needed, s). length (l2_cache s))"
    by simp
qed

declare make_room_l2.simps [simp del]

definition demote_to_l2 ::
  "'a codec \<Rightarrow> string \<Rightarrow> 'a CacheBlock \<Rightarrow> 'a HelixCache \<Rightarrow> 'a HelixCache" where
  "demote_to_l2 c k block s =
     (let s1 = s\<lparr>l1_cache := AList.delete k (l1_cache s)\<rparr>;
          s2 = make_room_l2 c (size_bytes block) s1;
          b1 = block\<lparr>tier := L2_WARM\<rparr>
      in stat_inc demotions (s2\<lparr>l2_cache := AList.update k b1 (l2_cache s2)\<rparr>))"

function make_room_l1 :: "'a codec \<Rightarrow> int \<Rightarrow> 'a HelixCache \<Rightarrow> 'a HelixCache" where
  "make_room_l1 c needed s =
     (if get_tier_size (l1_cache s) + needed > l1_max s \<and> l1_cache s \<noteq> [] then
        make_room_l1 c needed
          (demote_to_l2 c (fst (hd (l1_cache s))) (snd (hd (l1_cache s))) s)
      else s)"
  by pat_completeness auto

termination make_room_l1
proof (relation "measure (\<lambda>(c, needed, s). length (l1_cache s))")
  show "wf (measure (\<lambda>(c :: 'a codec, needed :: int, s :: 'a HelixCache). length (l1_cache s)))"
    by simp
next
  fix c :: "'a codec" and needed :: int and s :: "'a HelixCache"
  assume "l1_max s < get_tier_size (l1_cache s) + needed \<and> l1_cache s \<noteq> []"
  then have less: "length (AList.delete (fst (hd (l1_cache s))) (l1_cache s)) < length (l1_cache s)"
    by (cases "l1_cache s") (auto simp: less_Suc_eq_le length_delete_le)
  have room3: "l1_cache (make_room_l3 n u) = l1_cache u" for n and u :: "'a HelixCache"
    by (induction n u rule: make_room_l3.induct)
       (subst make_room_l3.simps, simp add: stat_inc_def)
  have "l1_cache (demote_to_l3 c k b u) = l1_cache u" for k b and u :: "'a HelixCache"
    by (simp add: demote_to_l3_def Let_def stat_inc_def room3 split: prod.splits)
  then have room2: "l1_cache (make_room_l2 c n u) = l1_cache u" for n and u :: "'a HelixCache"
    by (induction c n u rule: make_room_l2.induct)
       (subst make_room_l2.simps, simp)
  have "l1_cache (demote_to_l2 c k b s) = AList.delete k (l1_cache s)" for k b
    by (simp add: demote_to_l2_def Let_def stat_inc_def room2)
  with less show "((c, needed,
        demote_to_l2 c (fst (hd (l1_cache s))) (snd (hd (l1_cache s))) s), c, needed, s)
      \<in> measure (\<lambda>(c, needed, s). length (l1_cache s))"
    by simp
qed

declare make_room_l1.simps [simp del]

definition promote_to_l1 ::
  "'a codec \<Rightarrow> string \<Rightarrow> 'a CacheBlock \<Rightarrow> 'a HelixCache \<Rightarrow> 'a HelixCache" where
  "promote_to_l1 c k block s =
     (let s1 = s\<lparr>l2_cache := AList.delete k (l2_cache s)\<rparr>;
          s2 = make_room_l1 c (size_bytes block) s1;
          b1 = block\<lparr>tier := L1_HOT\<rparr>
      in stat_inc promotions (s2\<lparr>l1_cache := AList.update k b1 (l1_cache s2)\<rparr>))"

definition promote_to_l2 ::
  "'a codec \<Rightarrow> string \<Rightarrow> 'a CacheBlock \<Rightarrow> 'a HelixCache \<Rightarrow> 'a HelixCache" where
  "promote_to_l2 c k block s =
     (let s1 = s\<lparr>l3_cache := AList.delete k (l3_cache s)\<rparr>;
          s2 = make_room_l2 c (size_bytes block) s1;
          b1 = block\<lparr>tier := L2_WARM\<rparr>
      in stat_inc promotions (s2\<lparr>l2_cache := AList.update k b1 (l2_cache s2)\<rparr>))"

text \<open>
  \<^verbatim>\<open>HelixCache.get\<close>. The block is changed in place in its dictionary by \<^verbatim>\<open>access\<close>
  (and \<^verbatim>\<open>decompress\<close>) before it is moved. The result \<open>None\<close> is Python's \<^verbatim>\<open>None\<close>:
  a miss, or a hit on a block whose payload is \<^verbatim>\<open>None\<close>.
\<close>

definition get :: "'a codec \<Rightarrow> string \<Rightarrow> 'a HelixCache \<Rightarrow> 'a option \<times> 'a HelixCache" where
  "get c k s =
     (case map_of (l1_cache s) k of
        Some b0 \<Rightarrow>
          (let s1 = stat_inc l1_hits s;
               block = access b0;
               s2 = s1\<lparr>l1_cache := move_to_end k (AList.update k block (l1_cache s1))\<rparr>
           in (data block, s2))
      | None \<Rightarrow>
          (let s1 = stat_inc l1_misses s in
           case map_of (l2_cache s1) k of
             Some b0 \<Rightarrow>
               (let s2 = stat_inc l2_hits s1;
                    block = access b0;
                    s3 = s2\<lparr>l2_cache := AList.update k block (l2_cache s2)\<rparr>;
                    s4 = (if access_count block > 3 then promote_to_l1 c k block s3
                          else s3\<lparr>l2_cache := move_to_end k (l2_cache s3)\<rparr>)
                in (data block, s4))
           | None \<Rightarrow>
               (let s2 = stat_inc l2_misses s1 in
                case map_of (l3_cache s2) k of
                  Some b0 \<Rightarrow>
                    (let s3 = stat_inc l3_hits s2;
                         b1 = access b0;
                         block = (if compressed b1 then decompress c b1 else b1);
                         s4 = s3\<lparr>l3_cache := AList.update k block (l3_cache s3)\<rparr>;
                         s5 = (if access_count block > 2 then promote_to_l2 c k block s4
                               else s4\<lparr>l3_cache := move_to_end k (l3_cache s4)\<rparr>)
                     in (data block, s5))
                | None \<Rightarrow> (None, stat_inc l3_misses s2))))"

definition put :: "'a codec \<Rightarrow> string \<Rightarrow> 'a option \<Rightarrow> int \<Rightarrow> 'a HelixCache \<Rightarrow> 'a HelixCache" where
  "put c k d sz s =
     (let s1 = s\<lparr>l2_cache := AList.delete k (l2_cache s)\<rparr>;
          s2 = s1\<lparr>l3_cache := AList.delete k (l3_cache s1)\<rparr>;
          block = \<lparr>key = k, data = d, tier = L1_HOT, size_bytes = sz,
                   access_count = 0, compressed = False, compressed_data = None\<rparr>;
          s3 = make_room_l1 c sz s2
      in s3\<lparr>l1_cache := AList.update k block (l1_cache s3)\<rparr>)"

subsection \<open>HelixMemoryManager\<close>

datatype memory_stat = total_allocations | total_deallocations | virtual_memory_used

record 'a HelixMemoryManager =
  cache :: "'a HelixCache"
  max_virtual :: int
  allocations :: "string \<rightharpoonup> int"
  total_allocated :: int
  mstats :: "memory_stat \<Rightarrow> int"

definition HelixMemoryManager_init :: "'a HelixCache \<Rightarrow> int \<Rightarrow> 'a HelixMemoryManager" where
  "HelixMemoryManager_init ch max_virtual_mb =
     \<lparr>cache = ch, max_virtual = max_virtual_mb * 1024 * 1024,
      allocations = Map.empty, total_allocated = 0, mstats = (\<lambda>_. 0)\<rparr>"

text \<open>The size \<^verbatim>\<open>malloc\<close> computes: the length of the pickle, or 1024 when pickling raises.\<close>

definition data_size :: "'a codec \<Rightarrow> 'a option \<Rightarrow> int" where
  "data_size c d = (case pickle_dumps c d of Some b \<Rightarrow> int (length b) | None \<Rightarrow> 1024)"

definition malloc ::
  "'a codec \<Rightarrow> string \<Rightarrow> 'a option \<Rightarrow> 'a HelixMemoryManager \<Rightarrow> bool \<times> 'a HelixMemoryManager" where
  "malloc c k d m =
     (let sz = data_size c d in
      if total_allocated m + sz > max_virtual m then (False, m)
      else
        (let m1 = m\<lparr>cache := put c k d sz (cache m)\<rparr>;
             m2 = m1\<lparr>allocations := (allocations m1)(k \<mapsto> sz)\<rparr>;
             m3 = m2\<lparr>total_allocated := total_allocated m2 + sz\<rparr>;
             m4 = m3\<lparr>mstats := (mstats m3)(total_allocations := mstats m3 total_allocations + 1)\<rparr>
         in (True, m4\<lparr>mstats := (mstats m4)(virtual_memory_used := total_allocated m4)\<rparr>)))"

definition free :: "string \<Rightarrow> 'a HelixMemoryManager \<Rightarrow> bool \<times> 'a HelixMemoryManager" where
  "free k m =
     (case allocations m k of
        None \<Rightarrow> (False, m)
      | Some sz \<Rightarrow>
          (let m1 = m\<lparr>total_allocated := total_allocated m - sz\<rparr>;
               m2 = m1\<lparr>allocations := (allocations m1)(k := None)\<rparr>;
               ch = cache m2;
               ch1 = ch\<lparr>l1_cache := AList.delete k (l1_cache ch)\<rparr>;
               ch2 = ch1\<lparr>l2_cache := AList.delete k (l2_cache ch1)\<rparr>;
               ch3 = ch2\<lparr>l3_cache := AList.delete k (l3_cache ch2)\<rparr>;
               m3 = m2\<lparr>cache := ch3\<rparr>;
               m4 = m3\<lparr>mstats := (mstats m3)(total_deallocations := mstats m3 total_deallocations + 1)\<rparr>
           in (True, m4\<lparr>mstats := (mstats m4)(virtual_memory_used := total_allocated m4)\<rparr>)))"

definition read :: "'a codec \<Rightarrow> string \<Rightarrow> 'a HelixMemoryManager \<Rightarrow> 'a option \<times> 'a HelixMemoryManager" where
  "read c k m = (let (r, ch) = get c k (cache m) in (r, m\<lparr>cache := ch\<rparr>))"

definition write_mem ::
  "'a codec \<Rightarrow> string \<Rightarrow> 'a option \<Rightarrow> 'a HelixMemoryManager \<Rightarrow> bool \<times> 'a HelixMemoryManager" where
  "write_mem c k d m =
     (let m1 = (if allocations m k \<noteq> None then snd (free k m) else m)
      in malloc c k d m1)"

section \<open>File cache and translator layer (franken.py, parts 5 to 7)\<close>

text \<open>
  The translator stores \<^verbatim>\<open>bytes\<close> only, so the system below it is the memory manager at
  payload type \<^typ>\<open>bytes\<close>. The file system of the machine is not part of the repository:
  it is the field \<open>disk\<close>, a map from paths to files, with a predicate that says for
  which paths writing raises. A raised exception is a value of \<open>exn\<close>.
\<close>

datatype exn = ValueError | KeyError

datatype disk_file = Unreadable | File bytes

record storage =
  files :: "string \<rightharpoonup> disk_file"
  write_raises :: "string \<Rightarrow> bool"

datatype fs_stat = file_reads | file_writes | cache_hits | cache_misses | disk_reads | disk_writes

record HelixSystem =
  memory :: "bytes HelixMemoryManager"
  file_cache :: "string \<rightharpoonup> string"
  fs_stats :: "fs_stat \<Rightarrow> nat"
  disk :: storage

definition HelixSystem_init :: "int \<Rightarrow> int \<Rightarrow> int \<Rightarrow> int \<Rightarrow> storage \<Rightarrow> HelixSystem" where
  "HelixSystem_init l1_mb l2_mb l3_mb vram_mb dsk =
     \<lparr>memory = HelixMemoryManager_init (HelixCache_init l1_mb l2_mb l3_mb) vram_mb,
      file_cache = Map.empty, fs_stats = (\<lambda>_. 0), disk = dsk\<rparr>"

definition fs_stat_inc :: "fs_stat \<Rightarrow> HelixSystem \<Rightarrow> HelixSystem" where
  "fs_stat_inc k h = h\<lparr>fs_stats := (fs_stats h)(k := fs_stats h k + 1)\<rparr>"

definition read_file :: "bytes codec \<Rightarrow> string \<Rightarrow> HelixSystem \<Rightarrow> bytes option \<times> HelixSystem" where
  "read_file c filepath h =
     (let h1 = fs_stat_inc file_reads h;
          cache_key = ''file:'' @ filepath;
          (cached, m1) = read c cache_key (memory h1);
          h2 = h1\<lparr>memory := m1\<rparr>
      in if cached \<noteq> None then (cached, fs_stat_inc cache_hits h2)
         else
           (let h3 = fs_stat_inc cache_misses h2 in
            case files (disk h3) filepath of
              None \<Rightarrow> (None, h3)
            | Some Unreadable \<Rightarrow> (None, h3)
            | Some (File bs) \<Rightarrow>
                (let h4 = fs_stat_inc disk_reads h3;
                     (ok, m2) = malloc c cache_key (Some bs) (memory h4);
                     h5 = h4\<lparr>memory := m2\<rparr>
                 in (Some bs, h5\<lparr>file_cache := (file_cache h5)(filepath \<mapsto> cache_key)\<rparr>))))"

definition write_file :: "bytes codec \<Rightarrow> string \<Rightarrow> bytes \<Rightarrow> bool \<Rightarrow> HelixSystem \<Rightarrow> HelixSystem" where
  "write_file c filepath bs write_through h =
     (let h1 = fs_stat_inc file_writes h;
          cache_key = ''file:'' @ filepath;
          (ok, m1) = write_mem c cache_key (Some bs) (memory h1);
          h2 = h1\<lparr>memory := m1\<rparr>;
          h3 = h2\<lparr>file_cache := (file_cache h2)(filepath \<mapsto> cache_key)\<rparr>
      in if write_through \<and> \<not> write_raises (disk h3) filepath then
           fs_stat_inc disk_writes
             (h3\<lparr>disk := (disk h3)\<lparr>files := (files (disk h3))(filepath \<mapsto> File bs)\<rparr>\<rparr>)
         else h3)"

subsection \<open>Formatting of keys and slicing of bytes\<close>

definition hex_char :: "nat \<Rightarrow> char" where
  "hex_char d = ''0123456789abcdef'' ! d"

fun hex_digits :: "nat \<Rightarrow> string" where
  "hex_digits n =
     (if n < 16 then [hex_char n] else hex_digits (n div 16) @ [hex_char (n mod 16)])"

declare hex_digits.simps [simp del]

definition zero_pad :: "nat \<Rightarrow> string \<Rightarrow> string" where
  "zero_pad w ds = replicate (w - length ds) (CHR ''0'') @ ds"

text \<open>The format \<^verbatim>\<open>{:016x}\<close>: lower-case hexadecimal, padded with zeros to 16 characters.\<close>

definition format_016x :: "int \<Rightarrow> string" where
  "format_016x i =
     (if i < 0 then ''-'' @ zero_pad 15 (hex_digits (nat (- i)))
      else zero_pad 16 (hex_digits (nat i)))"

definition dec_char :: "nat \<Rightarrow> char" where
  "dec_char d = ''0123456789'' ! d"

fun dec_digits :: "nat \<Rightarrow> string" where
  "dec_digits n =
     (if n < 10 then [dec_char n] else dec_digits (n div 10) @ [dec_char (n mod 10)])"

declare dec_digits.simps [simp del]

definition str_int :: "int \<Rightarrow> string" where
  "str_int i = (if i < 0 then ''-'' @ dec_digits (nat (- i)) else dec_digits (nat i))"

text \<open>The key \<^verbatim>\<open>f"mem_{next_fake_pointer:016x}_{size}"\<close>.\<close>

definition mem_key :: "int \<Rightarrow> int \<Rightarrow> string" where
  "mem_key ptr sz = ''mem_'' @ format_016x ptr @ ''_'' @ str_int sz"

text \<open>
  Python slices: a negative bound counts from the end, and every bound is clamped to the
  length. \<^verbatim>\<open>xs[lo:hi]\<close> is \<open>py_slice xs lo hi\<close>, and \<^verbatim>\<open>xs[lo:hi] = ys\<close> on a
  \<^verbatim>\<open>bytearray\<close> is \<open>py_slice_assign\<close>: when the upper bound lies below the lower one,
  the values are inserted at the lower bound.
\<close>

definition slice_index :: "int \<Rightarrow> nat \<Rightarrow> nat" where
  "slice_index i n = (if i < 0 then nat (max 0 (i + int n)) else min (nat i) n)"

definition py_slice :: "'b list \<Rightarrow> int \<Rightarrow> int \<Rightarrow> 'b list" where
  "py_slice xs lo hi =
     (let a = slice_index lo (length xs); b = slice_index hi (length xs)
      in take (b - a) (drop a xs))"

definition py_slice_assign :: "'b list \<Rightarrow> int \<Rightarrow> int \<Rightarrow> 'b list \<Rightarrow> 'b list" where
  "py_slice_assign xs lo hi ys =
     (let a = slice_index lo (length xs); b = max a (slice_index hi (length xs))
      in take a xs @ ys @ drop b xs)"

subsection \<open>HelixTranslator\<close>

record TranslationEntry =
  app_pointer :: int
  helix_key :: string
  entry_size :: int
  entry_access_count :: nat

definition entry_access :: "TranslationEntry \<Rightarrow> TranslationEntry" where
  "entry_access e = e\<lparr>entry_access_count := entry_access_count e + 1\<rparr>"

datatype translator_stat =
  ingress_calls | egress_calls | malloc_intercepts | free_intercepts
  | read_intercepts | write_intercepts

record HelixTranslator =
  helix :: HelixSystem
  ptr_to_key :: "int \<rightharpoonup> TranslationEntry"
  key_to_ptr :: "string \<rightharpoonup> int"
  next_fake_pointer :: int
  fd_to_path :: "int \<rightharpoonup> string"
  path_to_fd :: "string \<rightharpoonup> int"
  next_fake_fd :: int
  tstats :: "translator_stat \<Rightarrow> nat"

definition HelixTranslator_init :: "HelixSystem \<Rightarrow> HelixTranslator" where
  "HelixTranslator_init h =
     \<lparr>helix = h, ptr_to_key = Map.empty, key_to_ptr = Map.empty,
      next_fake_pointer = 0x10000000,
      fd_to_path = Map.empty, path_to_fd = Map.empty, next_fake_fd = 1000,
      tstats = (\<lambda>_. 0)\<rparr>"

definition tstat_inc :: "translator_stat \<Rightarrow> HelixTranslator \<Rightarrow> HelixTranslator" where
  "tstat_inc k t = t\<lparr>tstats := (tstats t)(k := tstats t k + 1)\<rparr>"

text \<open>
  \<^verbatim>\<open>translate_malloc\<close>: \<^verbatim>\<open>bytearray(size)\<close> raises \<^verbatim>\<open>ValueError\<close> for a negative size;
  the key is formatted before that, with no effect. The result 0 is the invalid pointer.
\<close>

definition translate_malloc ::
  "bytes codec \<Rightarrow> int \<Rightarrow> HelixTranslator \<Rightarrow> (exn + int) \<times> HelixTranslator" where
  "translate_malloc c sz t =
     (let t1 = tstat_inc malloc_intercepts (tstat_inc ingress_calls t);
          k = mem_key (next_fake_pointer t1) sz
      in if sz < 0 then (Inl ValueError, t1)
         else
           (let bs = replicate (nat sz) (0 :: byte);
                (success, m1) = malloc c k (Some bs) (memory (helix t1));
                t2 = t1\<lparr>helix := (helix t1)\<lparr>memory := m1\<rparr>\<rparr>
            in if \<not> success then (Inr 0, t2)
               else
                 (let fake_ptr = next_fake_pointer t2;
                      t3 = t2\<lparr>next_fake_pointer := next_fake_pointer t2 + 0x1000\<rparr>;
                      entry = \<lparr>app_pointer = fake_ptr, helix_key = k, entry_size = sz,
                               entry_access_count = 0\<rparr>;
                      t4 = t3\<lparr>ptr_to_key := (ptr_to_key t3)(fake_ptr \<mapsto> entry)\<rparr>;
                      t5 = t4\<lparr>key_to_ptr := (key_to_ptr t4)(k \<mapsto> fake_ptr)\<rparr>
                  in (Inr fake_ptr, tstat_inc egress_calls t5))))"

definition translate_free :: "int \<Rightarrow> HelixTranslator \<Rightarrow> (exn + bool) \<times> HelixTranslator" where
  "translate_free pointer t =
     (let t1 = tstat_inc free_intercepts (tstat_inc ingress_calls t) in
      case ptr_to_key t1 pointer of
        None \<Rightarrow> (Inr False, t1)
      | Some entry \<Rightarrow>
          (let (ok, m1) = free (helix_key entry) (memory (helix t1));
               t2 = t1\<lparr>helix := (helix t1)\<lparr>memory := m1\<rparr>\<rparr>;
               t3 = t2\<lparr>ptr_to_key := (ptr_to_key t2)(pointer := None)\<rparr>
           in if key_to_ptr t3 (helix_key entry) = None then (Inl KeyError, t3)
              else
                (Inr True,
                 tstat_inc egress_calls
                   (t3\<lparr>key_to_ptr := (key_to_ptr t3)(helix_key entry := None)\<rparr>))))"

definition translate_read ::
  "bytes codec \<Rightarrow> int \<Rightarrow> int \<Rightarrow> int \<Rightarrow> HelixTranslator \<Rightarrow> bytes option \<times> HelixTranslator" where
  "translate_read c pointer sz offset t =
     (let t1 = tstat_inc read_intercepts (tstat_inc ingress_calls t) in
      case ptr_to_key t1 pointer of
        None \<Rightarrow> (None, t1)
      | Some entry0 \<Rightarrow>
          (let entry = entry_access entry0;
               t2 = t1\<lparr>ptr_to_key := (ptr_to_key t1)(pointer \<mapsto> entry)\<rparr>;
               (d, m1) = read c (helix_key entry) (memory (helix t2));
               t3 = t2\<lparr>helix := (helix t2)\<lparr>memory := m1\<rparr>\<rparr>
           in case d of
                None \<Rightarrow> (None, t3)
              | Some bs \<Rightarrow> (Some (py_slice bs offset (offset + sz)), tstat_inc egress_calls t3)))"

definition translate_write ::
  "bytes codec \<Rightarrow> int \<Rightarrow> bytes \<Rightarrow> int \<Rightarrow> HelixTranslator \<Rightarrow> bool \<times> HelixTranslator" where
  "translate_write c pointer d offset t =
     (let t1 = tstat_inc write_intercepts (tstat_inc ingress_calls t) in
      case ptr_to_key t1 pointer of
        None \<Rightarrow> (False, t1)
      | Some entry0 \<Rightarrow>
          (let entry = entry_access entry0;
               t2 = t1\<lparr>ptr_to_key := (ptr_to_key t1)(pointer \<mapsto> entry)\<rparr>;
               (existing, m1) = read c (helix_key entry) (memory (helix t2));
               buffer = (if truthy existing then the existing
                         else replicate (nat (entry_size entry)) 0);
               stop = offset + int (length d);
               buffer1 = py_slice_assign buffer offset stop d;
               (success, m2) = write_mem c (helix_key entry) (Some buffer1) m1;
               t3 = t2\<lparr>helix := (helix t2)\<lparr>memory := m2\<rparr>\<rparr>
           in (success, tstat_inc egress_calls t3)))"

definition translate_open :: "string \<Rightarrow> string \<Rightarrow> HelixTranslator \<Rightarrow> int \<times> HelixTranslator" where
  "translate_open filepath mode t =
     (let t1 = tstat_inc ingress_calls t;
          fake_fd = next_fake_fd t1;
          t2 = t1\<lparr>next_fake_fd := next_fake_fd t1 + 1\<rparr>;
          t3 = t2\<lparr>fd_to_path := (fd_to_path t2)(fake_fd \<mapsto> filepath)\<rparr>;
          t4 = t3\<lparr>path_to_fd := (path_to_fd t3)(filepath \<mapsto> fake_fd)\<rparr>
      in (fake_fd, tstat_inc egress_calls t4))"

definition translate_read_file ::
  "bytes codec \<Rightarrow> int \<Rightarrow> int \<Rightarrow> HelixTranslator \<Rightarrow> bytes option \<times> HelixTranslator" where
  "translate_read_file c fd sz t =
     (let t1 = tstat_inc ingress_calls t in
      case fd_to_path t1 fd of
        None \<Rightarrow> (None, t1)
      | Some filepath \<Rightarrow>
          (let (d, h1) = read_file c filepath (helix t1);
               t2 = tstat_inc egress_calls (t1\<lparr>helix := h1\<rparr>)
           in (if truthy d then Some (py_slice (the d) 0 sz) else None, t2)))"

definition translate_write_file ::
  "bytes codec \<Rightarrow> int \<Rightarrow> bytes \<Rightarrow> HelixTranslator \<Rightarrow> bool \<times> HelixTranslator" where
  "translate_write_file c fd d t =
     (let t1 = tstat_inc ingress_calls t in
      case fd_to_path t1 fd of
        None \<Rightarrow> (False, t1)
      | Some filepath \<Rightarrow>
          (True, tstat_inc egress_calls (t1\<lparr>helix := write_file c filepath d True (helix t1)\<rparr>)))"

text \<open>
  \<^verbatim>\<open>translate_close\<close>: \<^verbatim>\<open>del self.path_to_fd[filepath]\<close> raises \<^verbatim>\<open>KeyError\<close> when the
  path has no entry, after the descriptor's own entry has been deleted.
\<close>

definition translate_close :: "int \<Rightarrow> HelixTranslator \<Rightarrow> (exn + bool) \<times> HelixTranslator" where
  "translate_close fd t =
     (let t1 = tstat_inc ingress_calls t in
      case fd_to_path t1 fd of
        None \<Rightarrow> (Inr False, t1)
      | Some filepath \<Rightarrow>
          (let t2 = t1\<lparr>fd_to_path := (fd_to_path t1)(fd := None)\<rparr>
           in if path_to_fd t2 filepath = None then (Inl KeyError, t2)
              else
                (Inr True,
                 tstat_inc egress_calls
                   (t2\<lparr>path_to_fd := (path_to_fd t2)(filepath := None)\<rparr>))))"

section \<open>Runs of operations\<close>

text \<open>
  A caller is a list of calls. The calls of the cache and of the memory manager act on
  the memory manager, which holds the cache; the calls of the translator act on the
  translator. A run goes on after a raised exception, from the state the call left.
\<close>

datatype 'a helix_op =
  Get string | Put string "'a option" int
  | Malloc string "'a option" | Free string | Read string | Write string "'a option"

fun helix_step :: "'a codec \<Rightarrow> 'a HelixMemoryManager \<Rightarrow> 'a helix_op \<Rightarrow> 'a HelixMemoryManager" where
  "helix_step c m (Get k) = m\<lparr>cache := snd (get c k (cache m))\<rparr>"
| "helix_step c m (Put k d sz) = m\<lparr>cache := put c k d sz (cache m)\<rparr>"
| "helix_step c m (Malloc k d) = snd (malloc c k d m)"
| "helix_step c m (Free k) = snd (free k m)"
| "helix_step c m (Read k) = snd (read c k m)"
| "helix_step c m (Write k d) = snd (write_mem c k d m)"

definition helix_run :: "'a codec \<Rightarrow> 'a HelixMemoryManager \<Rightarrow> 'a helix_op list \<Rightarrow> 'a HelixMemoryManager" where
  "helix_run c m ops = foldl (helix_step c) m ops"

fun allocator_op :: "'a helix_op \<Rightarrow> bool" where
  "allocator_op (Get k) = False"
| "allocator_op (Put k d sz) = False"
| "allocator_op (Malloc k d) = True"
| "allocator_op (Free k) = True"
| "allocator_op (Read k) = True"
| "allocator_op (Write k d) = True"

datatype t_op =
  TMalloc int | TFree int | TRead int int int | TWrite int bytes int
  | TOpen string string | TReadFile int int | TWriteFile int bytes | TClose int

datatype t_result = Raised exn | Pointer int | Flag bool | Bytes "bytes option" | Descriptor int

fun translate_step :: "bytes codec \<Rightarrow> HelixTranslator \<Rightarrow> t_op \<Rightarrow> t_result \<times> HelixTranslator" where
  "translate_step c t (TMalloc sz) =
     (case translate_malloc c sz t of
        (Inl e, t') \<Rightarrow> (Raised e, t') | (Inr p, t') \<Rightarrow> (Pointer p, t'))"
| "translate_step c t (TFree p) =
     (case translate_free p t of
        (Inl e, t') \<Rightarrow> (Raised e, t') | (Inr b, t') \<Rightarrow> (Flag b, t'))"
| "translate_step c t (TRead p sz offset) =
     (case translate_read c p sz offset t of (r, t') \<Rightarrow> (Bytes r, t'))"
| "translate_step c t (TWrite p d offset) =
     (case translate_write c p d offset t of (b, t') \<Rightarrow> (Flag b, t'))"
| "translate_step c t (TOpen filepath mode) =
     (case translate_open filepath mode t of (fd, t') \<Rightarrow> (Descriptor fd, t'))"
| "translate_step c t (TReadFile fd sz) =
     (case translate_read_file c fd sz t of (r, t') \<Rightarrow> (Bytes r, t'))"
| "translate_step c t (TWriteFile fd d) =
     (case translate_write_file c fd d t of (b, t') \<Rightarrow> (Flag b, t'))"
| "translate_step c t (TClose fd) =
     (case translate_close fd t of
        (Inl e, t') \<Rightarrow> (Raised e, t') | (Inr b, t') \<Rightarrow> (Flag b, t'))"

fun translate_run :: "bytes codec \<Rightarrow> HelixTranslator \<Rightarrow> t_op list \<Rightarrow> HelixTranslator" where
  "translate_run c t [] = t"
| "translate_run c t (x # xs) = translate_run c (snd (translate_step c t x)) xs"

text \<open>The results of a run, call by call.\<close>

fun translate_results :: "bytes codec \<Rightarrow> HelixTranslator \<Rightarrow> t_op list \<Rightarrow> t_result list" where
  "translate_results c t [] = []"
| "translate_results c t (x # xs) =
     fst (translate_step c t x) # translate_results c (snd (translate_step c t x)) xs"

text \<open>The pointers and the descriptors a run has issued, in the order of issue.\<close>

fun issued_pointers :: "t_result list \<Rightarrow> int list" where
  "issued_pointers [] = []"
| "issued_pointers (Pointer p # rs) = (if p = 0 then issued_pointers rs else p # issued_pointers rs)"
| "issued_pointers (r # rs) = issued_pointers rs"

fun issued_descriptors :: "t_result list \<Rightarrow> int list" where
  "issued_descriptors [] = []"
| "issued_descriptors (Descriptor fd # rs) = fd # issued_descriptors rs"
| "issued_descriptors (r # rs) = issued_descriptors rs"

section \<open>Notions used in the statements\<close>

text \<open>\<^verbatim>\<open>k in d\<close> for a tier dictionary.\<close>

definition in_tier :: "string \<Rightarrow> 'a tier_dict \<Rightarrow> bool" where
  "in_tier k d \<longleftrightarrow> map_of d k \<noteq> None"

text \<open>The number of tiers that hold a key.\<close>

definition tiers_holding :: "string \<Rightarrow> 'a HelixCache \<Rightarrow> nat" where
  "tiers_holding k s =
     (if in_tier k (l1_cache s) then 1 else 0) + (if in_tier k (l2_cache s) then 1 else 0)
     + (if in_tier k (l3_cache s) then 1 else 0)"

definition resident :: "string \<Rightarrow> 'a HelixCache \<Rightarrow> bool" where
  "resident k s \<longleftrightarrow> in_tier k (l1_cache s) \<or> in_tier k (l2_cache s) \<or> in_tier k (l3_cache s)"

text \<open>
  A concrete codec on \<^typ>\<open>bytes\<close>, for running the model on examples: a pickle is the
  payload between an opcode and a stop byte, and compression only adds a header byte.
  The bytes the real libraries produce are different; the examples below use it where
  the outcome does not depend on the bytes produced.
\<close>

definition stored_codec :: "bytes codec" where
  "stored_codec =
     \<lparr>pickle_dumps =
        (\<lambda>d. case d of None \<Rightarrow> Some [0x4E, 0x2E] | Some b \<Rightarrow> Some (0x43 # b @ [0x2E])),
      pickle_loads =
        (\<lambda>s. case s of [] \<Rightarrow> None
              | x # xs \<Rightarrow> if x = 0x4E then Some None else Some (Some (butlast xs))),
      zlib_compress = (\<lambda>s. 0x78 # s),
      zlib_decompress = (\<lambda>s. case s of [] \<Rightarrow> None | x # xs \<Rightarrow> Some xs)\<rparr>"

text \<open>A memory manager with a budget of 8 bytes, and the same after one allocation.\<close>

definition small_manager :: "bytes HelixMemoryManager" where
  "small_manager = (HelixMemoryManager_init (HelixCache_init 1 1 1) 0)\<lparr>max_virtual := 8\<rparr>"

definition small_manager_buf :: "bytes HelixMemoryManager" where
  "small_manager_buf = snd (malloc stored_codec ''buf'' (Some [0, 0, 0, 0]) small_manager)"

text \<open>
  Example states of the cache, with tiers of 1 MiB each. In \<open>warm_example\<close> the block
  \<open>a\<close> has been read three times in the Hot tier and then demoted by the insertion of
  \<open>b\<close>; in \<open>cold_example\<close> it has never been read.
\<close>

definition warm_example :: "bytes HelixCache" where
  "warm_example =
     put stored_codec ''b'' (Some [2]) 1048576
       (snd (get stored_codec ''a''
         (snd (get stored_codec ''a''
           (snd (get stored_codec ''a''
             (put stored_codec ''a'' (Some [1]) 1048576 (HelixCache_init 1 1 1))))))))"

definition cold_example :: "bytes HelixCache" where
  "cold_example =
     put stored_codec ''b'' (Some [2]) 1048576
       (put stored_codec ''a'' (Some [1]) 1048576 (HelixCache_init 1 1 1))"

text \<open>The same key inserted twice, each time with a block of 0.6 MiB.\<close>

definition put_twice_example :: "bytes HelixCache" where
  "put_twice_example =
     put stored_codec ''a'' (Some [2]) 629146
       (put stored_codec ''a'' (Some [1]) 629146 (HelixCache_init 1 1 1))"

text \<open>One block of 2 MiB inserted into the empty cache.\<close>

definition oversize_example :: "bytes HelixCache" where
  "oversize_example = put stored_codec ''a'' (Some [1]) 2097152 (HelixCache_init 1 1 1)"

text \<open>Four allocations on a cache whose tiers have no capacity at all.\<close>

definition eviction_example :: "bytes HelixMemoryManager" where
  "eviction_example =
     helix_run stored_codec (HelixMemoryManager_init (HelixCache_init 0 0 0) 1)
       [Malloc ''a'' (Some [1]), Malloc ''b'' (Some [2]), Malloc ''c'' (Some [3]),
        Malloc ''d'' (Some [4])]"

text \<open>
  Two notions for the allocation table. \<open>no_loss s s'\<close>: from \<open>s\<close> to \<open>s'\<close> the eviction
  counter has not gone down, and if it has not gone up then every key resident in \<open>s\<close> is
  resident in \<open>s'\<close>. \<open>alloc_resident m\<close>: every key of the allocation table is resident.
\<close>

definition no_loss :: "'a HelixCache \<Rightarrow> 'a HelixCache \<Rightarrow> bool" where
  "no_loss s s' \<longleftrightarrow>
     stats s evictions \<le> stats s' evictions
     \<and> (stats s' evictions = stats s evictions \<longrightarrow> (\<forall>k. resident k s \<longrightarrow> resident k s'))"

definition alloc_resident :: "'a HelixMemoryManager \<Rightarrow> bool" where
  "alloc_resident m \<longleftrightarrow> (\<forall>k. allocations m k \<noteq> None \<longrightarrow> resident k (cache m))"

text \<open>Two allocations on a cache whose tiers have no capacity: nothing is evicted yet.\<close>

definition two_allocations_example :: "bytes HelixMemoryManager" where
  "two_allocations_example =
     helix_run stored_codec (HelixMemoryManager_init (HelixCache_init 0 0 0) 1)
       [Malloc ''a'' (Some [1]), Malloc ''b'' (Some [2])]"

text \<open>A translator as \<^verbatim>\<open>init_helix()\<close> makes it, on a machine with no files.\<close>

definition empty_disk :: storage where
  "empty_disk = \<lparr>files = Map.empty, write_raises = (\<lambda>_. False)\<rparr>"

definition new_translator :: HelixTranslator where
  "new_translator = HelixTranslator_init (HelixSystem_init 512 2048 6000 8096 empty_disk)"

text \<open>Example runs of the translator.\<close>

definition handles_example :: HelixTranslator where
  "handles_example =
     translate_run stored_codec new_translator
       [TMalloc 4, TMalloc 8, TOpen ''f'' ''r'', TOpen ''g'' ''r'']"

definition double_open_example :: HelixTranslator where
  "double_open_example =
     translate_run stored_codec new_translator [TOpen ''f'' ''r'', TOpen ''f'' ''r'']"

definition buffer_example :: HelixTranslator where
  "buffer_example = snd (translate_malloc stored_codec 4 new_translator)"

text \<open>Reading a hexadecimal numeral back, to show that the keys of pointers differ.\<close>

definition hex_val :: "char \<Rightarrow> nat" where
  "hex_val ch = length (takeWhile (\<lambda>x. x \<noteq> ch) ''0123456789abcdef'')"

definition hex_num :: "string \<Rightarrow> nat" where
  "hex_num ds = foldl (\<lambda>acc ch. 16 * acc + hex_val ch) 0 ds"

text \<open>
  What the handle tables satisfy in every reachable state: the key of a pointer is the one
  formatted from it, and every active handle lies below the next value to be issued.
\<close>

definition handles_inv :: "HelixTranslator \<Rightarrow> bool" where
  "handles_inv t \<longleftrightarrow>
     (\<forall>p e. ptr_to_key t p = Some e \<longrightarrow>
        helix_key e = mem_key p (entry_size e) \<and> 0 \<le> p \<and> p < next_fake_pointer t)
     \<and> (\<forall>fd path. fd_to_path t fd = Some path \<longrightarrow> fd < next_fake_fd t)
     \<and> 0 \<le> next_fake_pointer t"

section \<open>Basic facts about dictionaries, \<open>get\<close> and \<open>put\<close>\<close>

lemma in_tier_delete [simp]: "in_tier k (AList.delete k' d) \<longleftrightarrow> k \<noteq> k' \<and> in_tier k d"
  by (auto simp: in_tier_def delete_conv')

lemma in_tier_update [simp]: "in_tier k (AList.update k' b d) \<longleftrightarrow> k = k' \<or> in_tier k d"
  by (simp add: in_tier_def update_conv')

lemma in_tier_Nil [simp]: "\<not> in_tier k []"
  by (simp add: in_tier_def)

lemma map_of_put_l1:
  "map_of (l1_cache (put c k d sz s)) k =
     Some \<lparr>key = k, data = d, tier = L1_HOT, size_bytes = sz,
           access_count = 0, compressed = False, compressed_data = None\<rparr>"
  by (simp add: put_def Let_def update_conv')

lemma get_l1_hit: "map_of (l1_cache s) k = Some b \<Longrightarrow> fst (get c k s) = data b"
  by (simp add: get_def Let_def access_def)

lemma get_all_miss:
  "\<not> in_tier k (l1_cache s) \<Longrightarrow> \<not> in_tier k (l2_cache s) \<Longrightarrow> \<not> in_tier k (l3_cache s)
   \<Longrightarrow> fst (get c k s) = None"
  by (simp add: get_def Let_def in_tier_def stat_inc_def)

lemma fst_read: "fst (read c k m) = fst (get c k (cache m))"
  by (simp add: read_def split_beta)

lemma malloc_success:
  "fst (malloc c k d m) \<longleftrightarrow> total_allocated m + data_size c d \<le> max_virtual m"
  by (simp add: malloc_def Let_def)

lemma cache_malloc:
  "fst (malloc c k d m) \<Longrightarrow> cache (snd (malloc c k d m)) = put c k d (data_size c d) (cache m)"
  by (simp add: malloc_def Let_def split: if_splits)

lemma read_after_malloc: "fst (malloc c k d m) \<Longrightarrow> fst (read c k (snd (malloc c k d m))) = d"
  by (simp add: fst_read cache_malloc get_l1_hit [OF map_of_put_l1])

lemma free_allocated:
  "allocations m k = Some sz \<Longrightarrow>
   snd (free k m) = m\<lparr>total_allocated := total_allocated m - sz,
       allocations := (allocations m)(k := None),
       cache := (cache m)\<lparr>l1_cache := AList.delete k (l1_cache (cache m)),
                           l2_cache := AList.delete k (l2_cache (cache m)),
                           l3_cache := AList.delete k (l3_cache (cache m))\<rparr>,
       mstats := (mstats m)(total_deallocations := mstats m total_deallocations + 1,
                            virtual_memory_used := total_allocated m - sz)\<rparr>"
  by (simp add: free_def Let_def)

lemma small_manager_buf_fields:
  "allocations small_manager_buf ''buf'' = Some 6"
  "total_allocated small_manager_buf = 6"
  "max_virtual small_manager_buf = 8"
  by (simp_all add: small_manager_buf_def small_manager_def malloc_def Let_def
      HelixMemoryManager_init_def data_size_def stored_codec_def)

section \<open>The memory manager: budget, round trip, failed write\<close>

text \<open>
  Claim C5. When \<open>total_allocated\<close> plus the computed size of the data exceeds the budget,
  \<open>malloc\<close> returns false and the whole memory manager (the counter, the allocation table,
  the statistics and the cache with its three tiers) is what it was before the call.
\<close>

theorem malloc_over_budget_rejected:
  "total_allocated m + data_size c d > max_virtual m \<Longrightarrow> malloc c k d m = (False, m)"
  by (simp add: malloc_def)

theorem malloc_over_budget_rejected_witness:
  "total_allocated small_manager + data_size stored_codec (Some [0, 0, 0, 0, 0, 0, 0, 0])
      > max_virtual small_manager
   \<and> malloc stored_codec ''buf'' (Some [0, 0, 0, 0, 0, 0, 0, 0]) small_manager
      = (False, small_manager)"
proof -
  have over: "total_allocated small_manager
      + data_size stored_codec (Some [0, 0, 0, 0, 0, 0, 0, 0]) > max_virtual small_manager"
    by (simp add: small_manager_def HelixMemoryManager_init_def data_size_def stored_codec_def)
  from over malloc_over_budget_rejected [OF over, of "''buf''"] show ?thesis
    by simp
qed

text \<open>
  Claim C6. For every key and every data whose serialized size is at most the capacity of
  the Hot tier, a \<open>malloc\<close> that succeeds is followed by a \<open>read\<close> of the same key that
  returns the data unchanged.
\<close>

theorem malloc_read_roundtrip:
  assumes "fst (malloc c k d m)" and "data_size c d \<le> l1_max (cache m)"
  shows "fst (read c k (snd (malloc c k d m))) = d"
proof -
  have "cache (snd (malloc c k d m)) = put c k d (data_size c d) (cache m)"
    using assms(1) by (rule cache_malloc)
  then have "fst (get c k (cache (snd (malloc c k d m)))) = d"
    by (simp add: get_l1_hit [OF map_of_put_l1])
  then show ?thesis
    by (simp add: fst_read)
qed

theorem malloc_read_roundtrip_witness:
  "fst (malloc stored_codec ''buf'' (Some [1, 2, 3]) small_manager)
   \<and> data_size stored_codec (Some [1, 2, 3]) \<le> l1_max (cache small_manager)
   \<and> fst (read stored_codec ''buf''
       (snd (malloc stored_codec ''buf'' (Some [1, 2, 3]) small_manager))) = Some [1, 2, 3]"
proof -
  have ok: "fst (malloc stored_codec ''buf'' (Some [1, 2, 3]) small_manager)"
    by (simp add: malloc_success small_manager_def HelixMemoryManager_init_def
        data_size_def stored_codec_def)
  have fits: "data_size stored_codec (Some [1, 2, 3]) \<le> l1_max (cache small_manager)"
    by (simp add: small_manager_def HelixMemoryManager_init_def HelixCache_init_def
        data_size_def stored_codec_def)
  from ok fits malloc_read_roundtrip [OF ok fits] show ?thesis
    by simp
qed

text \<open>
  Claim C10. A \<open>write\<close> to an allocated key whose new size does not fit the budget once the
  old size is given back returns false; afterwards the key is in no tier and not in the
  allocation table, \<open>total_allocated\<close> is lower by the old size, and a \<open>read\<close> of the key
  misses.
\<close>

theorem write_over_budget_destroys:
  assumes "allocations m k = Some s_old"
    and "total_allocated m - s_old + data_size c d > max_virtual m"
  shows "fst (write_mem c k d m) = False
    \<and> allocations (snd (write_mem c k d m)) k = None
    \<and> \<not> in_tier k (l1_cache (cache (snd (write_mem c k d m))))
    \<and> \<not> in_tier k (l2_cache (cache (snd (write_mem c k d m))))
    \<and> \<not> in_tier k (l3_cache (cache (snd (write_mem c k d m))))
    \<and> total_allocated (snd (write_mem c k d m)) = total_allocated m - s_old
    \<and> fst (read c k (snd (write_mem c k d m))) = None"
proof -
  let ?m1 = "snd (free k m)"
  have tot: "total_allocated ?m1 = total_allocated m - s_old"
    using assms(1) by (simp add: free_allocated)
  have "max_virtual ?m1 = max_virtual m"
    using assms(1) by (simp add: free_allocated)
  with tot assms(2) have "malloc c k d ?m1 = (False, ?m1)"
    by (simp add: malloc_def)
  with assms(1) have w: "write_mem c k d m = (False, ?m1)"
    by (simp add: write_mem_def)
  have gone: "\<not> in_tier k (l1_cache (cache ?m1))" "\<not> in_tier k (l2_cache (cache ?m1))"
    "\<not> in_tier k (l3_cache (cache ?m1))"
    using assms(1) by (simp_all add: free_allocated)
  then have "fst (get c k (cache ?m1)) = None"
    by (rule get_all_miss)
  then have "fst (read c k ?m1) = None"
    by (simp add: fst_read)
  with w tot gone assms(1) show ?thesis
    by (simp add: free_allocated)
qed

theorem write_over_budget_destroys_witness:
  "allocations small_manager_buf ''buf'' = Some 6
   \<and> total_allocated small_manager_buf - 6 + data_size stored_codec (Some [0, 0, 0, 0, 0, 0, 0, 0])
       > max_virtual small_manager_buf
   \<and> fst (write_mem stored_codec ''buf'' (Some [0, 0, 0, 0, 0, 0, 0, 0]) small_manager_buf) = False
   \<and> allocations (snd (write_mem stored_codec ''buf'' (Some [0, 0, 0, 0, 0, 0, 0, 0])
        small_manager_buf)) ''buf'' = None
   \<and> total_allocated (snd (write_mem stored_codec ''buf'' (Some [0, 0, 0, 0, 0, 0, 0, 0])
        small_manager_buf)) = 0
   \<and> fst (read stored_codec ''buf'' (snd (write_mem stored_codec ''buf''
        (Some [0, 0, 0, 0, 0, 0, 0, 0]) small_manager_buf))) = None"
proof -
  have a: "allocations small_manager_buf ''buf'' = Some 6"
    by (rule small_manager_buf_fields)
  have over: "total_allocated small_manager_buf - 6
      + data_size stored_codec (Some [0, 0, 0, 0, 0, 0, 0, 0]) > max_virtual small_manager_buf"
    by (simp add: small_manager_buf_fields data_size_def stored_codec_def)
  from a over write_over_budget_destroys [OF a over] show ?thesis
    by (simp add: small_manager_buf_fields)
qed

section \<open>What the make-room loops leave alone\<close>

lemma make_room_l3_frame [simp]:
  "l1_cache (make_room_l3 n s) = l1_cache s"
  "l2_cache (make_room_l3 n s) = l2_cache s"
  "l1_max (make_room_l3 n s) = l1_max s"
  "l2_max (make_room_l3 n s) = l2_max s"
  "l3_max (make_room_l3 n s) = l3_max s"
  by (induction n s rule: make_room_l3.induct; subst make_room_l3.simps; simp add: stat_inc_def)+

lemma make_room_l3_keys: "in_tier k (l3_cache (make_room_l3 n s)) \<Longrightarrow> in_tier k (l3_cache s)"
proof (induction n s rule: make_room_l3.induct)
  case (1 needed s)
  show ?case
  proof (cases "get_tier_size (l3_cache s) + needed > l3_max s \<and> l3_cache s \<noteq> []")
    case True
    with "1.prems" have "in_tier k (l3_cache (make_room_l3 needed (stat_inc evictions
             (s\<lparr>l3_cache := AList.delete (fst (hd (l3_cache s))) (l3_cache s)\<rparr>))))"
      by (subst (asm) make_room_l3.simps) simp
    with True "1.IH" show ?thesis by (simp add: stat_inc_def)
  next
    case False
    with "1.prems" show ?thesis by (subst (asm) make_room_l3.simps) simp
  qed
qed

lemma demote_to_l3_frame [simp]:
  "l1_cache (demote_to_l3 c k b s) = l1_cache s"
  "l2_cache (demote_to_l3 c k b s) = AList.delete k (l2_cache s)"
  "l1_max (demote_to_l3 c k b s) = l1_max s"
  "l2_max (demote_to_l3 c k b s) = l2_max s"
  "l3_max (demote_to_l3 c k b s) = l3_max s"
  by (simp_all add: demote_to_l3_def Let_def stat_inc_def split: prod.splits)

lemma demote_to_l3_keys:
  "in_tier k' (l3_cache (demote_to_l3 c k b s)) \<Longrightarrow> k' = k \<or> in_tier k' (l3_cache s)"
  by (auto simp: demote_to_l3_def Let_def stat_inc_def split: prod.splits if_splits
      dest: make_room_l3_keys)

lemma make_room_l2_frame [simp]:
  "l1_cache (make_room_l2 c n s) = l1_cache s"
  "l1_max (make_room_l2 c n s) = l1_max s"
  "l2_max (make_room_l2 c n s) = l2_max s"
  "l3_max (make_room_l2 c n s) = l3_max s"
  by (induction c n s rule: make_room_l2.induct; subst make_room_l2.simps; simp)+

lemma make_room_l2_keys:
  "in_tier k (l2_cache (make_room_l2 c n s)) \<Longrightarrow> in_tier k (l2_cache s)"
proof (induction c n s rule: make_room_l2.induct)
  case (1 c needed s)
  show ?case
  proof (cases "get_tier_size (l2_cache s) + needed > l2_max s \<and> l2_cache s \<noteq> []")
    case True
    with "1.prems" have "in_tier k (l2_cache (make_room_l2 c needed
        (demote_to_l3 c (fst (hd (l2_cache s))) (snd (hd (l2_cache s))) s)))"
      by (subst (asm) make_room_l2.simps) simp
    with True "1.IH" show ?thesis by simp
  next
    case False
    with "1.prems" show ?thesis by (subst (asm) make_room_l2.simps) simp
  qed
qed

lemma demote_to_l2_frame [simp]:
  "l1_cache (demote_to_l2 c k b s) = AList.delete k (l1_cache s)"
  "l1_max (demote_to_l2 c k b s) = l1_max s"
  "l2_max (demote_to_l2 c k b s) = l2_max s"
  "l3_max (demote_to_l2 c k b s) = l3_max s"
  by (simp_all add: demote_to_l2_def Let_def stat_inc_def)

lemma demote_to_l2_keys:
  "in_tier k' (l2_cache (demote_to_l2 c k b s)) \<Longrightarrow> k' = k \<or> in_tier k' (l2_cache s)"
  by (auto simp: demote_to_l2_def Let_def stat_inc_def dest: make_room_l2_keys)

lemma in_tier_hd: "d \<noteq> [] \<Longrightarrow> in_tier (fst (hd d)) d"
  by (cases d) (auto simp: in_tier_def)

lemma make_room_l1_frame [simp]:
  "l1_max (make_room_l1 c n s) = l1_max s"
  "l2_max (make_room_l1 c n s) = l2_max s"
  "l3_max (make_room_l1 c n s) = l3_max s"
  by (induction c n s rule: make_room_l1.induct; subst make_room_l1.simps; simp)+

lemma make_room_l1_keys:
  "in_tier k (l1_cache (make_room_l1 c n s)) \<Longrightarrow> in_tier k (l1_cache s)"
  "in_tier k (l2_cache (make_room_l1 c n s)) \<Longrightarrow> in_tier k (l2_cache s) \<or> in_tier k (l1_cache s)"
proof (induction c n s rule: make_room_l1.induct)
  case (1 c needed s)
  let ?s' = "demote_to_l2 c (fst (hd (l1_cache s))) (snd (hd (l1_cache s))) s"
  {
    case 1
    show ?case
    proof (cases "get_tier_size (l1_cache s) + needed > l1_max s \<and> l1_cache s \<noteq> []")
      case True
      with 1 have "in_tier k (l1_cache (make_room_l1 c needed ?s'))"
        by (subst (asm) make_room_l1.simps) simp
      with True "1.IH"(1) show ?thesis by simp
    next
      case False
      with 1 show ?thesis by (subst (asm) make_room_l1.simps) simp
    qed
  next
    case 2
    show ?case
    proof (cases "get_tier_size (l1_cache s) + needed > l1_max s \<and> l1_cache s \<noteq> []")
      case True
      with 2 have "in_tier k (l2_cache (make_room_l1 c needed ?s'))"
        by (subst (asm) make_room_l1.simps) simp
      with True "1.IH"(2) have "in_tier k (l2_cache ?s') \<or> in_tier k (l1_cache ?s')"
        by simp
      with True show ?thesis
        by (auto dest: demote_to_l2_keys simp: in_tier_hd)
    next
      case False
      with 2 show ?thesis by (subst (asm) make_room_l1.simps) simp
    qed
  }
qed

section \<open>Promotion from the Warm tier\<close>

lemma get_l2_hit:
  assumes "\<not> in_tier k (l1_cache s)" and "map_of (l2_cache s) k = Some b"
  shows "snd (get c k s) =
     (if access_count (access b) > 3
      then promote_to_l1 c k (access b)
             ((stat_inc l2_hits (stat_inc l1_misses s))
                \<lparr>l2_cache := AList.update k (access b) (l2_cache s)\<rparr>)
      else (stat_inc l2_hits (stat_inc l1_misses s))
             \<lparr>l2_cache := move_to_end k (AList.update k (access b) (l2_cache s))\<rparr>)"
  using assms by (simp add: get_def Let_def in_tier_def stat_inc_def)

lemma move_to_end_update:
  "move_to_end k (AList.update k b d) = AList.delete k d @ [(k, b)]"
  by (simp add: move_to_end_def update_conv' delete_update_same)

lemma promote_to_l1_keys:
  assumes "\<not> in_tier k (l1_cache s)"
  shows "map_of (l1_cache (promote_to_l1 c k b s)) k = Some (b\<lparr>tier := L1_HOT\<rparr>)"
    and "\<not> in_tier k (l2_cache (promote_to_l1 c k b s))"
proof -
  show "map_of (l1_cache (promote_to_l1 c k b s)) k = Some (b\<lparr>tier := L1_HOT\<rparr>)"
    by (simp add: promote_to_l1_def Let_def stat_inc_def update_conv')
  have "\<not> in_tier k (l2_cache (make_room_l1 c (size_bytes b)
      (s\<lparr>l2_cache := AList.delete k (l2_cache s)\<rparr>)))"
    using assms by (auto dest: make_room_l1_keys(2))
  then show "\<not> in_tier k (l2_cache (promote_to_l1 c k b s))"
    by (simp add: promote_to_l1_def Let_def stat_inc_def)
qed

lemma warm_example_tiers:
  "l1_cache warm_example = [(''b'', \<lparr>key = ''b'', data = Some [2], tier = L1_HOT,
       size_bytes = 1048576, access_count = 0, compressed = False, compressed_data = None\<rparr>)]"
  "l2_cache warm_example = [(''a'', \<lparr>key = ''a'', data = Some [1], tier = L2_WARM,
       size_bytes = 1048576, access_count = 3, compressed = False, compressed_data = None\<rparr>)]"
  by (simp_all add: warm_example_def put_def get_def Let_def HelixCache_init_def stat_inc_def
      access_def move_to_end_def make_room_l1.simps make_room_l2.simps demote_to_l2_def
      get_tier_size_def block_size_def truthy_def)

lemma cold_example_tiers:
  "l1_cache cold_example = [(''b'', \<lparr>key = ''b'', data = Some [2], tier = L1_HOT,
       size_bytes = 1048576, access_count = 0, compressed = False, compressed_data = None\<rparr>)]"
  "l2_cache cold_example = [(''a'', \<lparr>key = ''a'', data = Some [1], tier = L2_WARM,
       size_bytes = 1048576, access_count = 0, compressed = False, compressed_data = None\<rparr>)]"
  by (simp_all add: cold_example_def put_def Let_def HelixCache_init_def stat_inc_def
      make_room_l1.simps make_room_l2.simps demote_to_l2_def
      get_tier_size_def block_size_def truthy_def)

text \<open>
  Claim C1, as the code has it. \<open>get\<close> increments the access count before it compares it
  with 3. So for a key that is in the Warm tier and not in the Hot tier: a hit on a block
  whose count was at most 2 before the hit leaves it in the Warm tier, moved to the most
  recent end; a hit on a block whose count was 3 or more before the hit moves it to the
  Hot tier and out of the Warm tier.
\<close>

theorem warm_hit_promotion_boundary:
  assumes "\<not> in_tier k (l1_cache s)" and "map_of (l2_cache s) k = Some b"
  shows "(access_count b \<le> 2 \<longrightarrow>
            \<not> in_tier k (l1_cache (snd (get c k s)))
            \<and> l2_cache (snd (get c k s)) = AList.delete k (l2_cache s) @ [(k, access b)])
       \<and> (3 \<le> access_count b \<longrightarrow>
            map_of (l1_cache (snd (get c k s))) k = Some ((access b)\<lparr>tier := L1_HOT\<rparr>)
            \<and> \<not> in_tier k (l2_cache (snd (get c k s))))"
proof (intro conjI impI)
  assume low: "access_count b \<le> 2"
  then have "snd (get c k s) = (stat_inc l2_hits (stat_inc l1_misses s))
             \<lparr>l2_cache := move_to_end k (AList.update k (access b) (l2_cache s))\<rparr>"
    using assms by (simp add: get_l2_hit access_def)
  then show "\<not> in_tier k (l1_cache (snd (get c k s)))"
    and "l2_cache (snd (get c k s)) = AList.delete k (l2_cache s) @ [(k, access b)]"
    using assms(1) by (simp_all add: stat_inc_def move_to_end_update)
next
  assume high: "3 \<le> access_count b"
  let ?s1 = "(stat_inc l2_hits (stat_inc l1_misses s))
                \<lparr>l2_cache := AList.update k (access b) (l2_cache s)\<rparr>"
  from high have eq: "snd (get c k s) = promote_to_l1 c k (access b) ?s1"
    using assms by (simp add: get_l2_hit access_def)
  have "\<not> in_tier k (l1_cache ?s1)"
    using assms(1) by (simp add: stat_inc_def)
  then show "map_of (l1_cache (snd (get c k s))) k = Some ((access b)\<lparr>tier := L1_HOT\<rparr>)"
    and "\<not> in_tier k (l2_cache (snd (get c k s)))"
    unfolding eq by (rule promote_to_l1_keys)+
qed

theorem warm_hit_promotion_boundary_witness:
  "(\<not> in_tier ''a'' (l1_cache warm_example)
    \<and> map_of (l2_cache warm_example) ''a'' = Some \<lparr>key = ''a'', data = Some [1], tier = L2_WARM,
        size_bytes = 1048576, access_count = 3, compressed = False, compressed_data = None\<rparr>
    \<and> map_of (l1_cache (snd (get stored_codec ''a'' warm_example))) ''a''
        = Some \<lparr>key = ''a'', data = Some [1], tier = L1_HOT,
        size_bytes = 1048576, access_count = 4, compressed = False, compressed_data = None\<rparr>)
   \<and> (\<not> in_tier ''a'' (l1_cache cold_example)
    \<and> map_of (l2_cache cold_example) ''a'' = Some \<lparr>key = ''a'', data = Some [1], tier = L2_WARM,
        size_bytes = 1048576, access_count = 0, compressed = False, compressed_data = None\<rparr>
    \<and> \<not> in_tier ''a'' (l1_cache (snd (get stored_codec ''a'' cold_example)))
    \<and> l2_cache (snd (get stored_codec ''a'' cold_example))
        = [(''a'', \<lparr>key = ''a'', data = Some [1], tier = L2_WARM,
        size_bytes = 1048576, access_count = 1, compressed = False, compressed_data = None\<rparr>)])"
proof -
  have a: "\<not> in_tier ''a'' (l1_cache warm_example)"
    by (simp add: warm_example_tiers in_tier_def)
  have b: "map_of (l2_cache warm_example) ''a'' = Some \<lparr>key = ''a'', data = Some [1],
      tier = L2_WARM, size_bytes = 1048576, access_count = 3, compressed = False,
      compressed_data = None\<rparr>"
    by (simp add: warm_example_tiers)
  have a': "\<not> in_tier ''a'' (l1_cache cold_example)"
    by (simp add: cold_example_tiers in_tier_def)
  have b': "map_of (l2_cache cold_example) ''a'' = Some \<lparr>key = ''a'', data = Some [1],
      tier = L2_WARM, size_bytes = 1048576, access_count = 0, compressed = False,
      compressed_data = None\<rparr>"
    by (simp add: cold_example_tiers)
  from a b warm_hit_promotion_boundary [OF a b, of stored_codec]
    a' b' warm_hit_promotion_boundary [OF a' b', of stored_codec]
  show ?thesis
    by (simp add: access_def cold_example_tiers)
qed

text \<open>
  The claim as stated fails: in \<open>warm_example\<close> the block \<open>a\<close> is in the Warm tier with an
  access count of 3, and the next hit moves it to the Hot tier.
\<close>

theorem warm_hit_count_3_promotes_counterexample:
  "\<not> in_tier ''a'' (l1_cache warm_example)
   \<and> map_of (l2_cache warm_example) ''a'' = Some \<lparr>key = ''a'', data = Some [1], tier = L2_WARM,
       size_bytes = 1048576, access_count = 3, compressed = False, compressed_data = None\<rparr>
   \<and> in_tier ''a'' (l1_cache (snd (get stored_codec ''a'' warm_example)))
   \<and> \<not> in_tier ''a'' (l2_cache (snd (get stored_codec ''a'' warm_example)))"
  by (simp add: warm_example_tiers get_def Let_def stat_inc_def access_def in_tier_def
      promote_to_l1_def make_room_l1.simps make_room_l2.simps demote_to_l2_def
      get_tier_size_def block_size_def truthy_def warm_example_def put_def
      HelixCache_init_def move_to_end_def)

section \<open>Residence of a key in the tiers\<close>

text \<open>
  Claim C3 (single-tier residence) does not hold of the code. \<open>put\<close> removes the key from
  the Warm and the Compressed tier but not from the Hot tier; when the old Hot block of
  the same key is the victim of the make-room loop it is demoted to the Warm tier, and the
  new block is then stored in the Hot tier: the key is in two tiers.
\<close>

theorem put_resident_hot_key_two_tiers:
  "in_tier ''a'' (l1_cache put_twice_example) \<and> in_tier ''a'' (l2_cache put_twice_example)
   \<and> tiers_holding ''a'' put_twice_example = 2"
  by (simp add: tiers_holding_def in_tier_def put_twice_example_def put_def Let_def
      HelixCache_init_def stat_inc_def make_room_l1.simps make_room_l2.simps demote_to_l2_def
      get_tier_size_def block_size_def truthy_def)

section \<open>Evictions and the keys of the tiers\<close>

lemma no_loss_refl: "no_loss s s"
  by (simp add: no_loss_def)

lemma no_loss_trans: "no_loss s s' \<Longrightarrow> no_loss s' s'' \<Longrightarrow> no_loss s s''"
  by (auto simp: no_loss_def)

lemma evictions_stat_inc [simp]:
  "stats (stat_inc x s) evictions = (if x = evictions then stats s evictions + 1 else stats s evictions)"
  by (simp add: stat_inc_def)

lemma tiers_stat_inc [simp]:
  "l1_cache (stat_inc x s) = l1_cache s" "l2_cache (stat_inc x s) = l2_cache s"
  "l3_cache (stat_inc x s) = l3_cache s"
  by (simp_all add: stat_inc_def)

lemma make_room_l3_stop:
  "\<not> (get_tier_size (l3_cache s) + n > l3_max s \<and> l3_cache s \<noteq> []) \<Longrightarrow> make_room_l3 n s = s"
  by (subst make_room_l3.simps) auto

lemma make_room_l3_go:
  "get_tier_size (l3_cache s) + n > l3_max s \<and> l3_cache s \<noteq> [] \<Longrightarrow>
   make_room_l3 n s = make_room_l3 n (stat_inc evictions
       (s\<lparr>l3_cache := AList.delete (fst (hd (l3_cache s))) (l3_cache s)\<rparr>))"
  by (subst make_room_l3.simps) auto

lemma make_room_l2_stop:
  "\<not> (get_tier_size (l2_cache s) + n > l2_max s \<and> l2_cache s \<noteq> []) \<Longrightarrow> make_room_l2 c n s = s"
  by (subst make_room_l2.simps) auto

lemma make_room_l2_go:
  "get_tier_size (l2_cache s) + n > l2_max s \<and> l2_cache s \<noteq> [] \<Longrightarrow>
   make_room_l2 c n s =
     make_room_l2 c n (demote_to_l3 c (fst (hd (l2_cache s))) (snd (hd (l2_cache s))) s)"
  by (subst make_room_l2.simps) auto

lemma make_room_l1_stop:
  "\<not> (get_tier_size (l1_cache s) + n > l1_max s \<and> l1_cache s \<noteq> []) \<Longrightarrow> make_room_l1 c n s = s"
  by (subst make_room_l1.simps) auto

lemma make_room_l1_go:
  "get_tier_size (l1_cache s) + n > l1_max s \<and> l1_cache s \<noteq> [] \<Longrightarrow>
   make_room_l1 c n s =
     make_room_l1 c n (demote_to_l2 c (fst (hd (l1_cache s))) (snd (hd (l1_cache s))) s)"
  by (subst make_room_l1.simps) auto

lemma make_room_l3_evictions:
  "stats s evictions \<le> stats (make_room_l3 n s) evictions"
  "stats (make_room_l3 n s) evictions \<le> stats s evictions \<Longrightarrow> make_room_l3 n s = s"
proof (induction n s rule: make_room_l3.induct)
  case (1 needed s)
  let ?s' = "stat_inc evictions
             (s\<lparr>l3_cache := AList.delete (fst (hd (l3_cache s))) (l3_cache s)\<rparr>)"
  have more: "stats s evictions < stats (make_room_l3 needed s) evictions"
    if go: "get_tier_size (l3_cache s) + needed > l3_max s \<and> l3_cache s \<noteq> []"
  proof -
    from go have "stats ?s' evictions \<le> stats (make_room_l3 needed ?s') evictions"
      by (rule "1.IH"(1))
    moreover from go have "make_room_l3 needed s = make_room_l3 needed ?s'"
      by (rule make_room_l3_go)
    ultimately show ?thesis by simp
  qed
  {
    case 1
    show ?case
    proof (cases "get_tier_size (l3_cache s) + needed > l3_max s \<and> l3_cache s \<noteq> []")
      case True
      then show ?thesis using more by simp
    next
      case False
      then have "make_room_l3 needed s = s" by (rule make_room_l3_stop)
      then show ?thesis by simp
    qed
  next
    case 2
    show ?case
    proof (cases "get_tier_size (l3_cache s) + needed > l3_max s \<and> l3_cache s \<noteq> []")
      case True
      with more 2 show ?thesis by simp
    next
      case False
      then have "make_room_l3 needed s = s" by (rule make_room_l3_stop)
      then show ?thesis by simp
    qed
  }
qed

lemma demote_to_l3_shape:
  obtains n s2 b2 where
    "demote_to_l3 c k b s =
       stat_inc demotions
         ((make_room_l3 n s2)\<lparr>l3_cache := AList.update k b2 (l3_cache (make_room_l3 n s2))\<rparr>)"
    and "l1_cache s2 = l1_cache s" and "l2_cache s2 = AList.delete k (l2_cache s)"
    and "l3_cache s2 = l3_cache s" and "stats s2 evictions = stats s evictions"
proof -
  obtain saved b1 where cb: "compress c b = (saved, b1)"
    by (cases "compress c b")
  let ?s1 = "s\<lparr>l2_cache := AList.delete k (l2_cache s)\<rparr>"
  let ?s2 = "if saved > 0 then stat_inc compressions ?s1 else ?s1"
  let ?n = "if truthy (compressed_data b1)
            then int (length (the (compressed_data b1))) else size_bytes b1"
  show thesis
  proof (rule that)
    show "demote_to_l3 c k b s =
       stat_inc demotions
         ((make_room_l3 ?n ?s2)\<lparr>l3_cache :=
            AList.update k (b1\<lparr>tier := L3_COMPRESSED\<rparr>) (l3_cache (make_room_l3 ?n ?s2))\<rparr>)"
      by (simp add: demote_to_l3_def Let_def cb)
  qed simp_all
qed

lemma demote_to_l3_no_loss: "no_loss s (demote_to_l3 c k b s)"
proof -
  obtain n s2 b2 where eq: "demote_to_l3 c k b s =
       stat_inc demotions
         ((make_room_l3 n s2)\<lparr>l3_cache := AList.update k b2 (l3_cache (make_room_l3 n s2))\<rparr>)"
    and s2: "l1_cache s2 = l1_cache s" "l2_cache s2 = AList.delete k (l2_cache s)"
      "l3_cache s2 = l3_cache s" "stats s2 evictions = stats s evictions"
    by (rule demote_to_l3_shape)
  have ev: "stats (demote_to_l3 c k b s) evictions = stats (make_room_l3 n s2) evictions"
    by (simp add: eq)
  have mono: "stats s evictions \<le> stats (demote_to_l3 c k b s) evictions"
    using make_room_l3_evictions(1) [of s2 n] by (simp add: ev s2)
  have keep: "resident k' (demote_to_l3 c k b s)"
    if same: "stats (demote_to_l3 c k b s) evictions = stats s evictions" and r: "resident k' s"
    for k'
  proof -
    from same have "make_room_l3 n s2 = s2"
      by (intro make_room_l3_evictions(2)) (simp add: ev s2)
    then have "l1_cache (demote_to_l3 c k b s) = l1_cache s"
      "l2_cache (demote_to_l3 c k b s) = AList.delete k (l2_cache s)"
      "l3_cache (demote_to_l3 c k b s) = AList.update k b2 (l3_cache s)"
      by (simp_all add: eq s2)
    with r show ?thesis
      by (auto simp: resident_def)
  qed
  from mono keep show ?thesis
    by (simp add: no_loss_def)
qed

lemma make_room_l2_no_loss: "no_loss s (make_room_l2 c n s)"
proof (induction c n s rule: make_room_l2.induct)
  case (1 c needed s)
  show ?case
  proof (cases "get_tier_size (l2_cache s) + needed > l2_max s \<and> l2_cache s \<noteq> []")
    case True
    let ?s' = "demote_to_l3 c (fst (hd (l2_cache s))) (snd (hd (l2_cache s))) s"
    from True have "no_loss ?s' (make_room_l2 c needed ?s')"
      by (rule "1.IH")
    with demote_to_l3_no_loss have "no_loss s (make_room_l2 c needed ?s')"
      by (rule no_loss_trans)
    with True show ?thesis by (simp add: make_room_l2_go)
  next
    case False
    then have "make_room_l2 c needed s = s" by (rule make_room_l2_stop)
    then show ?thesis by (simp add: no_loss_refl)
  qed
qed

text \<open>Taking a block out of one tier, making room, and storing it in another tier.\<close>

lemma no_loss_move:
  assumes nl: "no_loss s1 s2"
    and ev: "stats s1 evictions = stats s evictions" "stats s3 evictions = stats s2 evictions"
    and out: "\<And>k'. resident k' s \<Longrightarrow> k' = k \<or> resident k' s1"
    and again: "resident k s3" "\<And>k'. resident k' s2 \<Longrightarrow> resident k' s3"
  shows "no_loss s s3"
  using assms unfolding no_loss_def by metis

lemma demote_to_l2_no_loss: "no_loss s (demote_to_l2 c k b s)"
proof -
  let ?s1 = "s\<lparr>l1_cache := AList.delete k (l1_cache s)\<rparr>"
  let ?s2 = "make_room_l2 c (size_bytes b) ?s1"
  have final: "demote_to_l2 c k b s =
      stat_inc demotions (?s2\<lparr>l2_cache := AList.update k (b\<lparr>tier := L2_WARM\<rparr>) (l2_cache ?s2)\<rparr>)"
    by (simp add: demote_to_l2_def Let_def)
  show ?thesis
    unfolding final
    by (rule no_loss_move [where k = k, OF make_room_l2_no_loss])
       (auto simp: resident_def)
qed

lemma make_room_l1_no_loss: "no_loss s (make_room_l1 c n s)"
proof (induction c n s rule: make_room_l1.induct)
  case (1 c needed s)
  show ?case
  proof (cases "get_tier_size (l1_cache s) + needed > l1_max s \<and> l1_cache s \<noteq> []")
    case True
    let ?s' = "demote_to_l2 c (fst (hd (l1_cache s))) (snd (hd (l1_cache s))) s"
    from True have "no_loss ?s' (make_room_l1 c needed ?s')"
      by (rule "1.IH")
    with demote_to_l2_no_loss have "no_loss s (make_room_l1 c needed ?s')"
      by (rule no_loss_trans)
    with True show ?thesis by (simp add: make_room_l1_go)
  next
    case False
    then have "make_room_l1 c needed s = s" by (rule make_room_l1_stop)
    then show ?thesis by (simp add: no_loss_refl)
  qed
qed

lemma promote_to_l1_no_loss: "no_loss s (promote_to_l1 c k b s)"
proof -
  let ?s1 = "s\<lparr>l2_cache := AList.delete k (l2_cache s)\<rparr>"
  let ?s2 = "make_room_l1 c (size_bytes b) ?s1"
  have final: "promote_to_l1 c k b s =
      stat_inc promotions (?s2\<lparr>l1_cache := AList.update k (b\<lparr>tier := L1_HOT\<rparr>) (l1_cache ?s2)\<rparr>)"
    by (simp add: promote_to_l1_def Let_def)
  show ?thesis
    unfolding final
    by (rule no_loss_move [where k = k, OF make_room_l1_no_loss])
       (auto simp: resident_def)
qed

lemma promote_to_l2_no_loss: "no_loss s (promote_to_l2 c k b s)"
proof -
  let ?s1 = "s\<lparr>l3_cache := AList.delete k (l3_cache s)\<rparr>"
  let ?s2 = "make_room_l2 c (size_bytes b) ?s1"
  have final: "promote_to_l2 c k b s =
      stat_inc promotions (?s2\<lparr>l2_cache := AList.update k (b\<lparr>tier := L2_WARM\<rparr>) (l2_cache ?s2)\<rparr>)"
    by (simp add: promote_to_l2_def Let_def)
  show ?thesis
    unfolding final
    by (rule no_loss_move [where k = k, OF make_room_l2_no_loss])
       (auto simp: resident_def)
qed

lemma in_tier_append [simp]: "in_tier k (d @ d') \<longleftrightarrow> in_tier k d \<or> in_tier k d'"
  by (auto simp: in_tier_def map_add_Some_iff)

lemma in_tier_Cons [simp]: "in_tier k ((k', b) # d) \<longleftrightarrow> k = k' \<or> in_tier k d"
  by (simp add: in_tier_def)

lemma in_tier_move_to_end [simp]: "in_tier k' (move_to_end k d) \<longleftrightarrow> in_tier k' d"
proof (cases "map_of d k")
  case None
  then show ?thesis by (simp add: move_to_end_def)
next
  case (Some b)
  then have "in_tier k d" by (simp add: in_tier_def)
  with Some show ?thesis by (auto simp: move_to_end_def)
qed

lemma no_loss_same_keys:
  assumes "stats s' evictions = stats s evictions"
    and "\<And>k. resident k s \<Longrightarrow> resident k s'"
  shows "no_loss s s'"
  using assms by (simp add: no_loss_def)

lemma put_no_loss: "no_loss s (put c k d sz s)"
proof -
  let ?s2 = "s\<lparr>l2_cache := AList.delete k (l2_cache s), l3_cache := AList.delete k (l3_cache s)\<rparr>"
  let ?s3 = "make_room_l1 c sz ?s2"
  have final: "put c k d sz s = ?s3\<lparr>l1_cache := AList.update k
      \<lparr>key = k, data = d, tier = L1_HOT, size_bytes = sz,
                   access_count = 0, compressed = False, compressed_data = None\<rparr> (l1_cache ?s3)\<rparr>"
    by (simp add: put_def Let_def)
  show ?thesis
    unfolding final
    by (rule no_loss_move [where k = k, OF make_room_l1_no_loss])
       (auto simp: resident_def)
qed

lemma get_l3_hit:
  assumes "\<not> in_tier k (l1_cache s)" and "\<not> in_tier k (l2_cache s)"
    and "map_of (l3_cache s) k = Some b0"
    and "block = (if compressed (access b0) then decompress c (access b0) else access b0)"
    and "s4 = (stat_inc l3_hits (stat_inc l2_misses (stat_inc l1_misses s)))
                \<lparr>l3_cache := AList.update k block (l3_cache s)\<rparr>"
  shows "snd (get c k s) =
     (if access_count block > 2 then promote_to_l2 c k block s4
      else s4\<lparr>l3_cache := move_to_end k (l3_cache s4)\<rparr>)"
  using assms by (simp add: get_def Let_def in_tier_def stat_inc_def)

lemma get_no_loss: "no_loss s (snd (get c k s))"
proof (cases "map_of (l1_cache s) k")
  case (Some b)
  then show ?thesis
    by (auto simp: get_def Let_def resident_def intro!: no_loss_same_keys)
next
  case n1: None
  then have n1': "\<not> in_tier k (l1_cache s)" by (simp add: in_tier_def)
  show ?thesis
  proof (cases "map_of (l2_cache s) k")
    case (Some b)
    let ?s3 = "(stat_inc l2_hits (stat_inc l1_misses s))
                 \<lparr>l2_cache := AList.update k (access b) (l2_cache s)\<rparr>"
    let ?s4 = "(stat_inc l2_hits (stat_inc l1_misses s))
                 \<lparr>l2_cache := move_to_end k (AList.update k (access b) (l2_cache s))\<rparr>"
    from Some have "in_tier k (l2_cache s)" by (simp add: in_tier_def)
    then have a: "no_loss s ?s3" and b: "no_loss s ?s4"
      by (auto simp: resident_def intro!: no_loss_same_keys)
    have "no_loss s (promote_to_l1 c k (access b) ?s3)"
      using a promote_to_l1_no_loss by (rule no_loss_trans)
    with b show ?thesis
      by (simp add: get_l2_hit [OF n1' Some])
  next
    case n2: None
    then have n2': "\<not> in_tier k (l2_cache s)" by (simp add: in_tier_def)
    show ?thesis
    proof (cases "map_of (l3_cache s) k")
      case None
      with n1 n2 show ?thesis
        by (auto simp: get_def Let_def resident_def intro!: no_loss_same_keys)
    next
      case (Some b0)
      define block where
        "block = (if compressed (access b0) then decompress c (access b0) else access b0)"
      define s4 where
        "s4 = (stat_inc l3_hits (stat_inc l2_misses (stat_inc l1_misses s)))
                \<lparr>l3_cache := AList.update k block (l3_cache s)\<rparr>"
      from Some have "in_tier k (l3_cache s)" by (simp add: in_tier_def)
      then have a: "no_loss s s4" and b: "no_loss s (s4\<lparr>l3_cache := move_to_end k (l3_cache s4)\<rparr>)"
        by (auto simp: s4_def resident_def intro!: no_loss_same_keys)
      have "no_loss s (promote_to_l2 c k block s4)"
        using a promote_to_l2_no_loss by (rule no_loss_trans)
      with b show ?thesis
        by (simp add: get_l3_hit [OF n1' n2' Some block_def s4_def])
    qed
  qed
qed

lemma resident_put: "resident k (put c k d sz s)"
  by (simp add: put_def Let_def resident_def)

lemma evictions_init: "stats (HelixCache_init a b c) evictions = 0"
  by (simp add: HelixCache_init_def)

section \<open>The allocation table and the tiers\<close>

lemma helix_step_evictions:
  "stats (cache m) evictions \<le> stats (cache (helix_step c m x)) evictions"
proof (cases x)
  case (Get k)
  then show ?thesis using get_no_loss [of "cache m" c k] by (simp add: no_loss_def)
next
  case (Put k d sz)
  then show ?thesis using put_no_loss [of "cache m" c k d sz] by (simp add: no_loss_def)
next
  case (Malloc k d)
  then show ?thesis using put_no_loss [of "cache m" c k d "data_size c d"]
    by (simp add: no_loss_def malloc_def Let_def)
next
  case (Free k)
  then show ?thesis by (simp add: free_def Let_def split: option.splits)
next
  case (Read k)
  then show ?thesis using get_no_loss [of "cache m" c k]
    by (simp add: no_loss_def read_def split_beta)
next
  case (Write k d)
  have "stats (cache (snd (malloc c k d m'))) evictions \<ge> stats (cache m') evictions" for m'
    using put_no_loss [of "cache m'" c k d "data_size c d"]
    by (simp add: no_loss_def malloc_def Let_def)
  from this [of m] this [of "snd (free k m)"] Write show ?thesis
    by (simp add: write_mem_def Let_def free_def split: option.splits)
qed

lemma malloc_alloc_resident:
  assumes "alloc_resident m" and "stats (cache (snd (malloc c k d m))) evictions = stats (cache m) evictions"
  shows "alloc_resident (snd (malloc c k d m))"
proof (cases "fst (malloc c k d m)")
  case False
  then have "snd (malloc c k d m) = m" by (simp add: malloc_def Let_def split: if_splits)
  with assms show ?thesis by simp
next
  case True
  then have ch: "cache (snd (malloc c k d m)) = put c k d (data_size c d) (cache m)"
    by (rule cache_malloc)
  from True have al: "allocations (snd (malloc c k d m)) = (allocations m)(k \<mapsto> data_size c d)"
    by (simp add: malloc_def Let_def split: if_splits)
  have "no_loss (cache m) (put c k d (data_size c d) (cache m))" by (rule put_no_loss)
  with assms(2) have "resident k' (cache m) \<Longrightarrow> resident k' (put c k d (data_size c d) (cache m))" for k'
    by (simp add: no_loss_def ch)
  with assms(1) show ?thesis
    by (auto simp: alloc_resident_def ch al resident_put)
qed

lemma free_alloc_resident:
  assumes "alloc_resident m"
  shows "alloc_resident (snd (free k m))"
proof (cases "allocations m k")
  case None
  then show ?thesis using assms by (simp add: free_def)
next
  case (Some sz)
  with assms show ?thesis
    by (auto simp: free_allocated alloc_resident_def resident_def)
qed

lemma free_evictions: "stats (cache (snd (free k m))) evictions = stats (cache m) evictions"
  by (simp add: free_def Let_def split: option.splits)

lemma helix_step_alloc_resident:
  assumes "allocator_op x" and "alloc_resident m"
    and "stats (cache (helix_step c m x)) evictions = stats (cache m) evictions"
  shows "alloc_resident (helix_step c m x)"
proof (cases x)
  case (Get k)
  with assms(1) show ?thesis by simp
next
  case (Put k d sz)
  with assms(1) show ?thesis by simp
next
  case (Malloc k d)
  with assms show ?thesis by (simp add: malloc_alloc_resident)
next
  case (Free k)
  with assms show ?thesis by (simp add: free_alloc_resident)
next
  case (Read k)
  have "no_loss (cache m) (snd (get c k (cache m)))" by (rule get_no_loss)
  with assms Read show ?thesis
    by (auto simp: alloc_resident_def read_def split_beta no_loss_def)
next
  case (Write k d)
  let ?m1 = "if allocations m k \<noteq> None then snd (free k m) else m"
  have w: "helix_step c m x = snd (malloc c k d ?m1)"
    using Write by (simp add: write_mem_def)
  have m1: "alloc_resident ?m1" "stats (cache ?m1) evictions = stats (cache m) evictions"
    using assms(2) by (simp_all add: free_alloc_resident free_evictions)
  show ?thesis
    unfolding w using m1 assms(3) by (intro malloc_alloc_resident) (simp_all add: w)
qed

lemma helix_run_snoc: "helix_run c m (xs @ [x]) = helix_step c (helix_run c m xs) x"
  by (simp add: helix_run_def)

lemma helix_run_evictions:
  "stats (cache m) evictions \<le> stats (cache (helix_run c m xs)) evictions"
proof (induction xs rule: rev_induct)
  case Nil
  show ?case by (simp add: helix_run_def)
next
  case (snoc x xs)
  then show ?case
    using helix_step_evictions [of "helix_run c m xs" c x]
    by (simp add: helix_run_snoc)
qed

lemma helix_run_alloc_resident:
  assumes "\<forall>x \<in> set xs. allocator_op x" and "alloc_resident m"
    and "stats (cache (helix_run c m xs)) evictions = stats (cache m) evictions"
  shows "alloc_resident (helix_run c m xs)"
  using assms
proof (induction xs rule: rev_induct)
  case Nil
  then show ?case by (simp add: helix_run_def)
next
  case (snoc x xs)
  let ?m' = "helix_run c m xs"
  have "stats (cache m) evictions \<le> stats (cache ?m') evictions"
    by (rule helix_run_evictions)
  moreover have "stats (cache ?m') evictions \<le> stats (cache (helix_step c ?m' x)) evictions"
    by (rule helix_step_evictions)
  ultimately have same: "stats (cache ?m') evictions = stats (cache m) evictions"
    "stats (cache (helix_step c ?m' x)) evictions = stats (cache ?m') evictions"
    using snoc.prems(3) by (simp_all add: helix_run_snoc)
  with snoc have "alloc_resident ?m'" by simp
  with snoc.prems(1) same(2) show ?case
    by (simp add: helix_run_snoc helix_step_alloc_resident)
qed

text \<open>
  Claim C4, as the code has it. The cache never tells the memory manager about an
  eviction, so only this holds: in every state reached from a new memory manager by
  \<open>malloc\<close>, \<open>free\<close>, \<open>read\<close> and \<open>write\<close> in which the eviction counter of the cache is
  still 0, every key of the allocation table is resident in some tier.
\<close>

theorem allocations_resident_until_eviction:
  assumes "\<forall>x \<in> set xs. allocator_op x"
    and "m = helix_run c (HelixMemoryManager_init (HelixCache_init l1_mb l2_mb l3_mb) vram_mb) xs"
    and "stats (cache m) evictions = 0"
    and "allocations m k = Some sz"
  shows "resident k (cache m)"
proof -
  let ?m0 = "HelixMemoryManager_init (HelixCache_init l1_mb l2_mb l3_mb) vram_mb :: 'a HelixMemoryManager"
  have "alloc_resident ?m0"
    by (simp add: alloc_resident_def HelixMemoryManager_init_def)
  moreover have "stats (cache (helix_run c ?m0 xs)) evictions = stats (cache ?m0) evictions"
    using assms(2,3) by (simp add: HelixMemoryManager_init_def HelixCache_init_def)
  ultimately have "alloc_resident (helix_run c ?m0 xs)"
    using assms(1) by (intro helix_run_alloc_resident)
  with assms(2,4) show ?thesis
    by (simp add: alloc_resident_def)
qed

theorem allocations_resident_until_eviction_witness:
  "stats (cache two_allocations_example) evictions = 0
   \<and> allocations two_allocations_example ''a'' = Some 3
   \<and> resident ''a'' (cache two_allocations_example)"
proof -
  have ops: "\<forall>x \<in> set [Malloc ''a'' (Some [1]), Malloc ''b'' (Some [2 :: byte])]. allocator_op x"
    by simp
  have ev: "stats (cache two_allocations_example) evictions = 0"
    and al: "allocations two_allocations_example ''a'' = Some 3"
    by (simp_all add: two_allocations_example_def helix_run_def malloc_def data_size_def
        stored_codec_def HelixMemoryManager_init_def put_def Let_def HelixCache_init_def
        stat_inc_def make_room_l1.simps make_room_l2.simps demote_to_l2_def
        get_tier_size_def block_size_def truthy_def)
  from ev al
    allocations_resident_until_eviction [OF ops two_allocations_example_def ev al]
  show ?thesis
    by simp
qed

text \<open>
  The claim as stated fails: after four allocations on tiers without capacity the block
  \<open>a\<close> has been evicted from the Compressed tier, and its allocation record is still there.
\<close>

theorem evicted_key_still_allocated_counterexample:
  "allocations eviction_example ''a'' = Some 3
   \<and> \<not> resident ''a'' (cache eviction_example)
   \<and> stats (cache eviction_example) evictions = 1"
  by (simp add: eviction_example_def helix_run_def malloc_def data_size_def stored_codec_def
      HelixMemoryManager_init_def resident_def in_tier_def put_def Let_def HelixCache_init_def
      stat_inc_def make_room_l1.simps make_room_l2.simps make_room_l3.simps demote_to_l2_def
      demote_to_l3_def compress_def get_tier_size_def block_size_def truthy_def)

section \<open>The translator: keys, handle tables and counters\<close>

lemma digit_cases:
  "d < 16 \<Longrightarrow> d = 0 \<or> d = 1 \<or> d = 2 \<or> d = 3 \<or> d = 4 \<or> d = 5 \<or> d = 6 \<or> d = 7 \<or> d = 8
     \<or> d = 9 \<or> d = 10 \<or> d = 11 \<or> d = 12 \<or> d = 13 \<or> d = 14 \<or> d = (15 :: nat)"
  by (auto simp: eval_nat_numeral less_Suc_eq)

lemma hex_val_hex_char: "d < 16 \<Longrightarrow> hex_val (hex_char d) = d"
  by (drule digit_cases) (elim disjE; simp add: hex_val_def hex_char_def)

lemma hex_char_not_underscore: "d < 16 \<Longrightarrow> hex_char d \<noteq> CHR ''_''"
  by (drule digit_cases) (elim disjE; simp add: hex_char_def)

lemma hex_num_snoc: "hex_num (ds @ [ch]) = 16 * hex_num ds + hex_val ch"
  by (simp add: hex_num_def)

lemma hex_num_hex_digits: "hex_num (hex_digits n) = n"
proof (induction n rule: hex_digits.induct)
  case (1 n)
  show ?case
  proof (cases "n < 16")
    case True
    then show ?thesis
      by (simp add: hex_digits.simps [of n] hex_num_def hex_val_hex_char)
  next
    case False
    with "1.IH" have "hex_num (hex_digits (n div 16)) = n div 16" by simp
    with False show ?thesis
      by (simp add: hex_digits.simps [of n] hex_num_snoc hex_val_hex_char)
  qed
qed

lemma hex_digits_chars: "CHR ''_'' \<notin> set (hex_digits n)"
proof (induction n rule: hex_digits.induct)
  case (1 n)
  show ?case
  proof (cases "n < 16")
    case True
    then show ?thesis
      using hex_char_not_underscore [of n] by (auto simp: hex_digits.simps [of n])
  next
    case False
    with "1.IH" have "CHR ''_'' \<notin> set (hex_digits (n div 16))" by simp
    with False show ?thesis
      using hex_char_not_underscore [of "n mod 16"] by (auto simp: hex_digits.simps [of n])
  qed
qed

lemma hex_num_zeros: "hex_num (replicate k (CHR ''0'') @ ds) = hex_num ds"
proof -
  have "foldl (\<lambda>acc ch. 16 * acc + hex_val ch) 0 (replicate k (CHR ''0'')) = 0"
    by (induction k) (simp_all add: hex_val_def)
  then show ?thesis by (simp add: hex_num_def)
qed

lemma hex_num_format: "0 \<le> p \<Longrightarrow> hex_num (format_016x p) = nat p"
  by (simp add: format_016x_def zero_pad_def hex_num_zeros hex_num_hex_digits)

lemma format_chars: "0 \<le> p \<Longrightarrow> CHR ''_'' \<notin> set (format_016x p)"
  using hex_digits_chars [of "nat p"] by (auto simp: format_016x_def zero_pad_def)

lemma mem_key_inj:
  assumes "mem_key p sz = mem_key q sz'" and "0 \<le> p" and "0 \<le> q"
  shows "p = q"
proof -
  let ?P = "\<lambda>ch. ch \<noteq> CHR ''_''"
  from assms(1) have "format_016x p @ CHR ''_'' # str_int sz = format_016x q @ CHR ''_'' # str_int sz'"
    by (simp add: mem_key_def)
  then have "takeWhile ?P (format_016x p @ CHR ''_'' # str_int sz)
      = takeWhile ?P (format_016x q @ CHR ''_'' # str_int sz')"
    by simp
  moreover have "takeWhile ?P (format_016x r @ CHR ''_'' # rest) = format_016x r" if "0 \<le> r" for r rest
    using format_chars [OF that] by (subst takeWhile_append2) auto
  ultimately have "format_016x p = format_016x q"
    using assms(2,3) by simp
  then have "hex_num (format_016x p) = hex_num (format_016x q)" by simp
  with assms(2,3) show ?thesis by (simp add: hex_num_format)
qed

lemma tstat_inc_fields [simp]:
  "helix (tstat_inc x t) = helix t" "ptr_to_key (tstat_inc x t) = ptr_to_key t"
  "key_to_ptr (tstat_inc x t) = key_to_ptr t"
  "next_fake_pointer (tstat_inc x t) = next_fake_pointer t"
  "fd_to_path (tstat_inc x t) = fd_to_path t" "path_to_fd (tstat_inc x t) = path_to_fd t"
  "next_fake_fd (tstat_inc x t) = next_fake_fd t"
  by (simp_all add: tstat_inc_def)

lemma translate_malloc_unfold:
  "translate_malloc c sz t =
     (if sz < 0 then (Inl ValueError, tstat_inc malloc_intercepts (tstat_inc ingress_calls t))
      else if \<not> fst (malloc c (mem_key (next_fake_pointer t) sz) (Some (replicate (nat sz) 0))
                       (memory (helix t)))
      then (Inr 0, (tstat_inc malloc_intercepts (tstat_inc ingress_calls t))
                     \<lparr>helix := (helix t)\<lparr>memory := snd (malloc c (mem_key (next_fake_pointer t) sz)
                         (Some (replicate (nat sz) 0)) (memory (helix t)))\<rparr>\<rparr>)
      else (Inr (next_fake_pointer t),
            tstat_inc egress_calls
              ((tstat_inc malloc_intercepts (tstat_inc ingress_calls t))
                 \<lparr>helix := (helix t)\<lparr>memory := snd (malloc c (mem_key (next_fake_pointer t) sz)
                         (Some (replicate (nat sz) 0)) (memory (helix t)))\<rparr>,
                  next_fake_pointer := next_fake_pointer t + 0x1000,
                  ptr_to_key := (ptr_to_key t)(next_fake_pointer t \<mapsto>
                     \<lparr>app_pointer = next_fake_pointer t,
                      helix_key = mem_key (next_fake_pointer t) sz, entry_size = sz,
                      entry_access_count = 0\<rparr>),
                  key_to_ptr := (key_to_ptr t)(mem_key (next_fake_pointer t) sz \<mapsto>
                     next_fake_pointer t)\<rparr>)))"
  by (simp add: translate_malloc_def Let_def split_beta tstat_inc_def)

lemma translate_malloc_handles:
  "fst (translate_malloc c sz t) = Inr p \<and> p \<noteq> 0 \<Longrightarrow>
     p = next_fake_pointer t
     \<and> next_fake_pointer (snd (translate_malloc c sz t)) = next_fake_pointer t + 0x1000"
  "(next_fake_pointer (snd (translate_malloc c sz t)) = next_fake_pointer t
      \<and> ptr_to_key (snd (translate_malloc c sz t)) = ptr_to_key t)
   \<or> (0 \<le> sz
      \<and> next_fake_pointer (snd (translate_malloc c sz t)) = next_fake_pointer t + 0x1000
      \<and> ptr_to_key (snd (translate_malloc c sz t)) =
          (ptr_to_key t)(next_fake_pointer t \<mapsto>
             \<lparr>app_pointer = next_fake_pointer t,
              helix_key = mem_key (next_fake_pointer t) sz, entry_size = sz,
              entry_access_count = 0\<rparr>))"
  "fd_to_path (snd (translate_malloc c sz t)) = fd_to_path t"
  "next_fake_fd (snd (translate_malloc c sz t)) = next_fake_fd t"
proof -
  let ?ok = "fst (malloc c (mem_key (next_fake_pointer t) sz) (Some (replicate (nat sz) 0))
                       (memory (helix t)))"
  consider (neg) "sz < 0" | (fail) "\<not> sz < 0" "\<not> ?ok" | (ok) "\<not> sz < 0" "?ok"
    by blast
  note cases = this
  {
    assume a: "fst (translate_malloc c sz t) = Inr p \<and> p \<noteq> 0"
    from cases show "p = next_fake_pointer t
     \<and> next_fake_pointer (snd (translate_malloc c sz t)) = next_fake_pointer t + 0x1000"
    proof cases
      case neg
      with a show ?thesis by (simp add: translate_malloc_unfold)
    next
      case fail
      with a show ?thesis by (simp add: translate_malloc_unfold)
    next
      case ok
      with a have "p = next_fake_pointer t" by (simp add: translate_malloc_unfold)
      with ok show ?thesis by (simp add: translate_malloc_unfold)
    qed
  }
  from cases show "(next_fake_pointer (snd (translate_malloc c sz t)) = next_fake_pointer t
      \<and> ptr_to_key (snd (translate_malloc c sz t)) = ptr_to_key t)
   \<or> (0 \<le> sz
      \<and> next_fake_pointer (snd (translate_malloc c sz t)) = next_fake_pointer t + 0x1000
      \<and> ptr_to_key (snd (translate_malloc c sz t)) =
          (ptr_to_key t)(next_fake_pointer t \<mapsto>
             \<lparr>app_pointer = next_fake_pointer t,
              helix_key = mem_key (next_fake_pointer t) sz, entry_size = sz,
              entry_access_count = 0\<rparr>))"
    by cases (simp_all add: translate_malloc_unfold)
  from cases show "fd_to_path (snd (translate_malloc c sz t)) = fd_to_path t"
    by cases (simp_all add: translate_malloc_unfold)
  from cases show "next_fake_fd (snd (translate_malloc c sz t)) = next_fake_fd t"
    by cases (simp_all add: translate_malloc_unfold)
qed

lemma translate_free_handles:
  "next_fake_pointer (snd (translate_free p t)) = next_fake_pointer t"
  "ptr_to_key (snd (translate_free p t)) = (ptr_to_key t)(p := None)"
  "fd_to_path (snd (translate_free p t)) = fd_to_path t"
  "next_fake_fd (snd (translate_free p t)) = next_fake_fd t"
  by (auto simp: translate_free_def Let_def split_beta split: option.splits)

lemma translate_read_handles:
  "next_fake_pointer (snd (translate_read c p sz off t)) = next_fake_pointer t"
  "ptr_to_key (snd (translate_read c p sz off t)) =
     (case ptr_to_key t p of None \<Rightarrow> ptr_to_key t
      | Some e \<Rightarrow> (ptr_to_key t)(p \<mapsto> entry_access e))"
  "fd_to_path (snd (translate_read c p sz off t)) = fd_to_path t"
  "next_fake_fd (snd (translate_read c p sz off t)) = next_fake_fd t"
  by (auto simp: translate_read_def Let_def split_beta split: option.splits)

lemma translate_write_handles:
  "next_fake_pointer (snd (translate_write c p d off t)) = next_fake_pointer t"
  "ptr_to_key (snd (translate_write c p d off t)) =
     (case ptr_to_key t p of None \<Rightarrow> ptr_to_key t
      | Some e \<Rightarrow> (ptr_to_key t)(p \<mapsto> entry_access e))"
  "fd_to_path (snd (translate_write c p d off t)) = fd_to_path t"
  "next_fake_fd (snd (translate_write c p d off t)) = next_fake_fd t"
  by (auto simp: translate_write_def Let_def split_beta split: option.splits)

lemma translate_open_handles:
  "fst (translate_open path mode t) = next_fake_fd t"
  "next_fake_pointer (snd (translate_open path mode t)) = next_fake_pointer t"
  "ptr_to_key (snd (translate_open path mode t)) = ptr_to_key t"
  "fd_to_path (snd (translate_open path mode t)) = (fd_to_path t)(next_fake_fd t \<mapsto> path)"
  "next_fake_fd (snd (translate_open path mode t)) = next_fake_fd t + 1"
  by (simp_all add: translate_open_def Let_def)

lemma translate_read_file_handles:
  "next_fake_pointer (snd (translate_read_file c fd sz t)) = next_fake_pointer t"
  "ptr_to_key (snd (translate_read_file c fd sz t)) = ptr_to_key t"
  "fd_to_path (snd (translate_read_file c fd sz t)) = fd_to_path t"
  "next_fake_fd (snd (translate_read_file c fd sz t)) = next_fake_fd t"
  by (auto simp: translate_read_file_def Let_def split_beta split: option.splits)

lemma translate_write_file_handles:
  "next_fake_pointer (snd (translate_write_file c fd d t)) = next_fake_pointer t"
  "ptr_to_key (snd (translate_write_file c fd d t)) = ptr_to_key t"
  "fd_to_path (snd (translate_write_file c fd d t)) = fd_to_path t"
  "next_fake_fd (snd (translate_write_file c fd d t)) = next_fake_fd t"
  by (auto simp: translate_write_file_def Let_def split_beta split: option.splits)

lemma translate_close_handles:
  "next_fake_pointer (snd (translate_close fd t)) = next_fake_pointer t"
  "ptr_to_key (snd (translate_close fd t)) = ptr_to_key t"
  "fd_to_path (snd (translate_close fd t)) = (fd_to_path t)(fd := None)"
  "next_fake_fd (snd (translate_close fd t)) = next_fake_fd t"
  by (auto simp: translate_close_def Let_def split_beta split: option.splits)

lemma entry_access_fields [simp]:
  "helix_key (entry_access e) = helix_key e" "entry_size (entry_access e) = entry_size e"
  by (simp_all add: entry_access_def)

text \<open>What one call does to the handle tables and the counters.\<close>

lemma snd_translate_step:
  "snd (translate_step c t (TMalloc sz)) = snd (translate_malloc c sz t)"
  "snd (translate_step c t (TFree p)) = snd (translate_free p t)"
  "snd (translate_step c t (TRead p sz off)) = snd (translate_read c p sz off t)"
  "snd (translate_step c t (TWrite p d off)) = snd (translate_write c p d off t)"
  "snd (translate_step c t (TOpen path mode)) = snd (translate_open path mode t)"
  "snd (translate_step c t (TReadFile fd sz)) = snd (translate_read_file c fd sz t)"
  "snd (translate_step c t (TWriteFile fd d)) = snd (translate_write_file c fd d t)"
  "snd (translate_step c t (TClose fd)) = snd (translate_close fd t)"
  by (simp_all split: prod.splits sum.splits)

declare translate_step.simps [simp del]

lemma fst_translate_step_pointer:
  "fst (translate_step c t x) = Pointer p \<longleftrightarrow> (\<exists>sz. x = TMalloc sz \<and> fst (translate_malloc c sz t) = Inr p)"
  by (cases x) (simp_all add: translate_step.simps split: prod.splits sum.splits)

lemma fst_translate_step_descriptor:
  "fst (translate_step c t x) = Descriptor fd \<longleftrightarrow> (\<exists>path mode. x = TOpen path mode \<and> fst (translate_open path mode t) = fd)"
  by (cases x) (simp_all add: translate_step.simps split: prod.splits sum.splits)

lemma translate_step_pointer:
  assumes "fst (translate_step c t x) = Pointer p" and "p \<noteq> 0"
  shows "p = next_fake_pointer t"
    and "next_fake_pointer (snd (translate_step c t x)) = p + 0x1000"
proof -
  from assms(1) obtain sz where x: "x = TMalloc sz" and "fst (translate_malloc c sz t) = Inr p"
    by (auto simp: fst_translate_step_pointer)
  with assms(2) have "fst (translate_malloc c sz t) = Inr p \<and> p \<noteq> 0"
    by simp
  from translate_malloc_handles(1) [OF this]
  show "p = next_fake_pointer t" "next_fake_pointer (snd (translate_step c t x)) = p + 0x1000"
    by (simp_all add: x snd_translate_step)
qed

lemma translate_step_descriptor:
  assumes "fst (translate_step c t x) = Descriptor fd"
  shows "fd = next_fake_fd t"
    and "next_fake_fd (snd (translate_step c t x)) = fd + 1"
proof -
  from assms obtain path mode where x: "x = TOpen path mode"
    and "fst (translate_open path mode t) = fd"
    by (auto simp: fst_translate_step_descriptor)
  then show "fd = next_fake_fd t" "next_fake_fd (snd (translate_step c t x)) = fd + 1"
    by (simp_all add: snd_translate_step translate_open_handles)
qed

lemma translate_malloc_counter:
  "next_fake_pointer t \<le> next_fake_pointer (snd (translate_malloc c sz t))"
  using translate_malloc_handles(2) [of c sz t] by auto

lemmas translate_handles =
  translate_malloc_handles(3,4) translate_free_handles translate_read_handles
  translate_write_handles translate_open_handles translate_read_file_handles
  translate_write_file_handles translate_close_handles

lemma translate_step_counters:
  "next_fake_pointer t \<le> next_fake_pointer (snd (translate_step c t x))"
  "next_fake_fd t \<le> next_fake_fd (snd (translate_step c t x))"
proof -
  show "next_fake_pointer t \<le> next_fake_pointer (snd (translate_step c t x))"
    by (cases x) (simp_all add: snd_translate_step translate_malloc_counter translate_handles)
  show "next_fake_fd t \<le> next_fake_fd (snd (translate_step c t x))"
    by (cases x) (simp_all add: snd_translate_step translate_handles)
qed

lemma handles_inv_init: "handles_inv (HelixTranslator_init h)"
  by (simp add: handles_inv_def HelixTranslator_init_def)

lemma handles_inv_step:
  assumes "handles_inv t"
  shows "handles_inv (snd (translate_step c t x))"
proof (cases x)
  case (TMalloc sz)
  from translate_malloc_handles(2) [of c sz t] assms show ?thesis
    unfolding TMalloc snd_translate_step handles_inv_def
    by (elim disjE conjE) (force simp: translate_handles split: if_splits)+
next
  case (TFree p)
  with assms show ?thesis
    by (auto simp: handles_inv_def snd_translate_step translate_handles split: if_splits)
next
  case (TRead p sz off)
  with assms show ?thesis
    by (auto simp: handles_inv_def snd_translate_step translate_handles
        split: if_splits option.splits)
next
  case (TWrite p d off)
  with assms show ?thesis
    by (auto simp: handles_inv_def snd_translate_step translate_handles
        split: if_splits option.splits)
next
  case (TOpen path mode)
  with assms show ?thesis
    by (fastforce simp: handles_inv_def snd_translate_step translate_handles split: if_splits)
next
  case (TReadFile fd sz)
  with assms show ?thesis
    by (auto simp: handles_inv_def snd_translate_step translate_handles)
next
  case (TWriteFile fd d)
  with assms show ?thesis
    by (auto simp: handles_inv_def snd_translate_step translate_handles)
next
  case (TClose fd)
  with assms show ?thesis
    by (auto simp: handles_inv_def snd_translate_step translate_handles split: if_splits)
qed

lemma handles_inv_run: "handles_inv t \<Longrightarrow> handles_inv (translate_run c t xs)"
  by (induction xs arbitrary: t) (simp_all add: handles_inv_step)

lemma issued_pointers_lower:
  "p \<in> set (issued_pointers (translate_results c t xs)) \<Longrightarrow> next_fake_pointer t \<le> p"
proof (induction xs arbitrary: t p)
  case Nil
  then show ?case by simp
next
  case (Cons x xs)
  let ?t' = "snd (translate_step c t x)"
  have le: "next_fake_pointer t \<le> next_fake_pointer ?t'"
    by (rule translate_step_counters)
  have rest: "q \<in> set (issued_pointers (translate_results c ?t' xs)) \<Longrightarrow> next_fake_pointer t \<le> q" for q
    using Cons.IH [of q ?t'] le by simp
  show ?case
  proof (cases "fst (translate_step c t x)")
    case (Pointer q)
    then have "q \<noteq> 0 \<Longrightarrow> q = next_fake_pointer t" by (rule translate_step_pointer(1))
    with Pointer Cons.prems rest show ?thesis
      by (auto split: if_splits)
  qed (use Cons.prems rest in auto)
qed

lemma issued_pointers_sorted: "sorted_wrt (<) (issued_pointers (translate_results c t xs))"
proof (induction xs arbitrary: t)
  case Nil
  show ?case by simp
next
  case (Cons x xs)
  let ?t' = "snd (translate_step c t x)"
  show ?case
  proof (cases "fst (translate_step c t x)")
    case (Pointer q)
    show ?thesis
    proof (cases "q = 0")
      case True
      with Pointer Cons.IH show ?thesis by simp
    next
      case False
      with Pointer have "next_fake_pointer ?t' = q + 0x1000"
        by (simp add: translate_step_pointer(2))
      then have "\<forall>r \<in> set (issued_pointers (translate_results c ?t' xs)). q < r"
        using issued_pointers_lower [of _ c ?t' xs] by fastforce
      with Pointer False Cons.IH show ?thesis by simp
    qed
  qed (use Cons.IH in simp_all)
qed

lemma issued_descriptors_lower:
  "fd \<in> set (issued_descriptors (translate_results c t xs)) \<Longrightarrow> next_fake_fd t \<le> fd"
proof (induction xs arbitrary: t fd)
  case Nil
  then show ?case by simp
next
  case (Cons x xs)
  let ?t' = "snd (translate_step c t x)"
  have le: "next_fake_fd t \<le> next_fake_fd ?t'"
    by (rule translate_step_counters)
  have rest: "q \<in> set (issued_descriptors (translate_results c ?t' xs)) \<Longrightarrow> next_fake_fd t \<le> q" for q
    using Cons.IH [of q ?t'] le by simp
  show ?case
  proof (cases "fst (translate_step c t x)")
    case (Descriptor q)
    then have "q = next_fake_fd t" by (rule translate_step_descriptor(1))
    with Descriptor Cons.prems rest show ?thesis
      by auto
  qed (use Cons.prems rest in auto)
qed

lemma issued_descriptors_sorted: "sorted_wrt (<) (issued_descriptors (translate_results c t xs))"
proof (induction xs arbitrary: t)
  case Nil
  show ?case by simp
next
  case (Cons x xs)
  let ?t' = "snd (translate_step c t x)"
  show ?case
  proof (cases "fst (translate_step c t x)")
    case (Descriptor q)
    then have "next_fake_fd ?t' = q + 1"
      by (simp add: translate_step_descriptor(2))
    then have "\<forall>r \<in> set (issued_descriptors (translate_results c ?t' xs)). q < r"
      using issued_descriptors_lower [of _ c ?t' xs] by fastforce
    with Descriptor Cons.IH show ?thesis by simp
  qed (use Cons.IH in simp_all)
qed

lemma replicate_numeral: "replicate (numeral k) x = x # replicate (pred_numeral k) x"
  by (simp add: numeral_eq_Suc)

lemma malloc_fields:
  "max_virtual (snd (malloc c k d m)) = max_virtual m"
  "total_allocated (snd (malloc c k d m)) =
     (if fst (malloc c k d m) then total_allocated m + data_size c d else total_allocated m)"
  "allocations (snd (malloc c k d m)) =
     (if fst (malloc c k d m) then (allocations m)(k \<mapsto> data_size c d) else allocations m)"
  by (simp_all add: malloc_def Let_def)

lemma read_fields:
  "max_virtual (snd (read c k m)) = max_virtual m"
  "total_allocated (snd (read c k m)) = total_allocated m"
  "allocations (snd (read c k m)) = allocations m"
  by (simp_all add: read_def split_beta)

lemma write_mem_success:
  "fst (write_mem c k d m) \<longleftrightarrow>
     (case allocations m k of None \<Rightarrow> total_allocated m | Some s \<Rightarrow> total_allocated m - s)
       + data_size c d \<le> max_virtual m"
  by (cases "allocations m k") (simp_all add: write_mem_def malloc_success free_allocated)

lemma read_after_write:
  "fst (write_mem c k d m) \<Longrightarrow> fst (read c k (snd (write_mem c k d m))) = d"
  by (simp add: write_mem_def Let_def read_after_malloc)

lemma data_size_stored: "data_size stored_codec (Some bs) = int (length bs) + 2"
  by (simp add: data_size_def stored_codec_def)

lemma mem_key_examples:
  "mem_key 0x10000000 4 = ''mem_0000000010000000_4''"
  "mem_key 0x10001000 8 = ''mem_0000000010001000_8''"
  by (simp_all add: mem_key_def format_016x_def zero_pad_def hex_digits.simps hex_char_def
      str_int_def dec_digits.simps dec_char_def replicate_numeral)

lemma handles_example_facts:
  "ptr_to_key handles_example 0x10000000 =
     Some \<lparr>app_pointer = 0x10000000, helix_key = ''mem_0000000010000000_4'', entry_size = 4,
           entry_access_count = 0\<rparr>"
  "ptr_to_key handles_example 0x10001000 =
     Some \<lparr>app_pointer = 0x10001000, helix_key = ''mem_0000000010001000_8'', entry_size = 8,
           entry_access_count = 0\<rparr>"
  "fd_to_path handles_example 1001 = Some ''g''"
  "next_fake_pointer handles_example = 0x10002000"
  "next_fake_fd handles_example = 1002"
  by (simp_all add: handles_example_def new_translator_def HelixTranslator_init_def
      HelixSystem_init_def HelixMemoryManager_init_def translate_step.simps
      translate_malloc_unfold translate_open_def malloc_success malloc_fields
      data_size_stored mem_key_examples tstat_inc_def Let_def)

lemma handles_example_issued:
  "issued_pointers (translate_results stored_codec new_translator
       [TMalloc 4, TMalloc 8, TOpen ''f'' ''r'', TOpen ''g'' ''r'']) = [0x10000000, 0x10001000]"
  "issued_descriptors (translate_results stored_codec new_translator
       [TMalloc 4, TMalloc 8, TOpen ''f'' ''r'', TOpen ''g'' ''r'']) = [1000, 1001]"
  by (simp_all add: new_translator_def HelixTranslator_init_def
      HelixSystem_init_def HelixMemoryManager_init_def translate_step.simps
      translate_malloc_unfold translate_open_def malloc_success malloc_fields
      data_size_stored mem_key_examples tstat_inc_def Let_def)

text \<open>
  Claim C8, as the code has it. In every state reached from a new translator by any calls:
  two different active pointers map to different cache keys; every active pointer and
  every active descriptor is below the next value to be issued, so no value is issued
  again while a handle with that value is active; and the pointers issued (the results
  other than 0) and the descriptors issued are strictly increasing in the order of issue.
  Nothing is promised about the paths of descriptors: \<^verbatim>\<open>translate_open\<close> gives a new
  descriptor for a path that is already open.
\<close>

theorem handles_unique_and_increasing:
  assumes "t = translate_run c (HelixTranslator_init h) xs"
  shows "(\<forall>p q e e'. ptr_to_key t p = Some e \<and> ptr_to_key t q = Some e' \<and> p \<noteq> q
            \<longrightarrow> helix_key e \<noteq> helix_key e')
    \<and> (\<forall>p e. ptr_to_key t p = Some e \<longrightarrow> p < next_fake_pointer t)
    \<and> (\<forall>fd path. fd_to_path t fd = Some path \<longrightarrow> fd < next_fake_fd t)
    \<and> sorted_wrt (<) (issued_pointers (translate_results c (HelixTranslator_init h) xs))
    \<and> sorted_wrt (<) (issued_descriptors (translate_results c (HelixTranslator_init h) xs))"
proof -
  have inv: "handles_inv t"
    unfolding assms by (intro handles_inv_run handles_inv_init)
  have "helix_key e \<noteq> helix_key e'"
    if "ptr_to_key t p = Some e" "ptr_to_key t q = Some e'" "p \<noteq> q" for p q e e'
  proof
    assume "helix_key e = helix_key e'"
    with inv that(1,2) have "mem_key p (entry_size e) = mem_key q (entry_size e')"
      and "0 \<le> p" and "0 \<le> q"
      by (auto simp: handles_inv_def)
    then have "p = q" by (rule mem_key_inj)
    with that(3) show False by simp
  qed
  with inv show ?thesis
    by (auto simp: handles_inv_def issued_pointers_sorted issued_descriptors_sorted)
qed

theorem handles_unique_and_increasing_witness:
  "ptr_to_key handles_example 0x10000000 =
     Some \<lparr>app_pointer = 0x10000000, helix_key = ''mem_0000000010000000_4'', entry_size = 4,
           entry_access_count = 0\<rparr>
   \<and> ptr_to_key handles_example 0x10001000 =
     Some \<lparr>app_pointer = 0x10001000, helix_key = ''mem_0000000010001000_8'', entry_size = 8,
           entry_access_count = 0\<rparr>
   \<and> ''mem_0000000010000000_4'' \<noteq> ''mem_0000000010001000_8''
   \<and> 0x10001000 < next_fake_pointer handles_example
   \<and> fd_to_path handles_example 1001 = Some ''g''
   \<and> 1001 < next_fake_fd handles_example
   \<and> sorted_wrt (<) [0x10000000, 0x10001000 :: int]
   \<and> sorted_wrt (<) [1000, 1001 :: int]"
proof -
  have run: "handles_example =
      translate_run stored_codec
        (HelixTranslator_init (HelixSystem_init 512 2048 6000 8096 empty_disk))
        [TMalloc 4, TMalloc 8, TOpen ''f'' ''r'', TOpen ''g'' ''r'']"
    by (simp only: handles_example_def new_translator_def)
  note th = handles_unique_and_increasing [OF run]
  note f = handles_example_facts
  note keys = th [THEN conjunct1, rule_format]
  note ptrs = th [THEN conjunct2, THEN conjunct1, rule_format]
  note fds = th [THEN conjunct2, THEN conjunct2, THEN conjunct1, rule_format]
  note sorted_ptrs = th [THEN conjunct2, THEN conjunct2, THEN conjunct2, THEN conjunct1]
  note sorted_fds = th [THEN conjunct2, THEN conjunct2, THEN conjunct2, THEN conjunct2]
  have "helix_key \<lparr>app_pointer = 0x10000000, helix_key = ''mem_0000000010000000_4'',
        entry_size = 4, entry_access_count = 0\<rparr>
      \<noteq> helix_key \<lparr>app_pointer = 0x10001000, helix_key = ''mem_0000000010001000_8'',
        entry_size = 8, entry_access_count = 0\<rparr>"
    by (rule keys [of "0x10000000" _ "0x10001000"]) (simp add: f)
  then have a: "''mem_0000000010000000_4'' \<noteq> ''mem_0000000010001000_8''"
    by simp
  have b: "0x10001000 < next_fake_pointer handles_example"
    by (rule ptrs) (rule f(2))
  have c: "1001 < next_fake_fd handles_example"
    by (rule fds) (rule f(3))
  from sorted_ptrs have d: "sorted_wrt (<) [0x10000000, 0x10001000 :: int]"
    by (simp only: handles_example_issued new_translator_def [symmetric])
  from sorted_fds have e: "sorted_wrt (<) [1000, 1001 :: int]"
    by (simp only: handles_example_issued new_translator_def [symmetric])
  from a b c d e f(1,2,3) show ?thesis
    by (intro conjI)
qed

text \<open>
  The claim as stated fails for descriptors: after two calls of \<^verbatim>\<open>translate_open\<close> on the
  same path, two active descriptors map to that path.
\<close>

theorem two_descriptors_one_path_counterexample:
  "fd_to_path double_open_example 1000 = Some ''f''
   \<and> fd_to_path double_open_example 1001 = Some ''f''"
  by (simp add: double_open_example_def new_translator_def HelixTranslator_init_def
      translate_step.simps translate_open_def Let_def tstat_inc_def)

text \<open>
  Claim C9 (no call raises) does not hold of the code. \<^verbatim>\<open>translate_open\<close> overwrites the
  entry of the path in \<^verbatim>\<open>path_to_fd\<close>; closing the first descriptor deletes that entry,
  and closing the second one then raises \<^verbatim>\<open>KeyError\<close> at \<^verbatim>\<open>del self.path_to_fd[filepath]\<close>.
\<close>

theorem close_after_double_open_raises:
  "translate_results stored_codec new_translator
     [TOpen ''f'' ''r'', TOpen ''f'' ''r'', TClose 1000, TClose 1001]
   = [Descriptor 1000, Descriptor 1001, Flag True, Raised KeyError]"
  by (simp add: new_translator_def HelixTranslator_init_def translate_step.simps
      translate_open_def translate_close_def Let_def tstat_inc_def)

section \<open>Reading and writing at an offset\<close>

lemma slice_index_nonneg: "0 \<le> i \<Longrightarrow> slice_index i n = min (nat i) n"
  by (simp add: slice_index_def)

lemma py_slice_assign_within:
  assumes "0 \<le> off" and "off \<le> int (length b)"
  shows "py_slice_assign b off (off + int (length d)) d =
     take (nat off) b @ d @ drop (nat off + length d) b"
proof -
  from assms have n: "nat off \<le> length b"
    by linarith
  from assms have a: "slice_index off (length b) = nat off"
    by (simp add: slice_index_nonneg)
  from assms have s: "slice_index (off + int (length d)) (length b) = min (nat off + length d) (length b)"
    by (simp add: slice_index_nonneg nat_add_distrib)
  have "drop (max (nat off) (min (nat off + length d) (length b))) b = drop (nat off + length d) b"
    using n by (cases "nat off + length d \<le> length b") (simp_all add: max_def min_def)
  then show ?thesis
    by (simp add: py_slice_assign_def Let_def a s)
qed

lemma take_drop_middle: "length pre = k \<Longrightarrow> take (length d) (drop k (pre @ d @ rest)) = d"
  by simp

lemma py_slice_of_splice:
  assumes "0 \<le> off" and "off \<le> int (length b)"
  shows "py_slice (take (nat off) b @ d @ rest) off (off + int (length d)) = d"
proof -
  let ?xs = "take (nat off) b @ d @ rest"
  from assms have n: "nat off \<le> length b"
    by linarith
  then have len: "length (take (nat off) b) = nat off"
    by simp
  have total: "length ?xs = nat off + length d + length rest"
    using len by simp
  have a: "slice_index off (length ?xs) = nat off"
    using assms(1) unfolding total by (simp add: slice_index_nonneg)
  have s: "slice_index (off + int (length d)) (length ?xs) = nat off + length d"
    using assms(1) unfolding total by (simp add: slice_index_nonneg nat_add_distrib)
  have "py_slice ?xs off (off + int (length d)) = take (length d) (drop (nat off) ?xs)"
    unfolding py_slice_def Let_def a s by simp
  also have "\<dots> = d"
    using len by (rule take_drop_middle)
  finally show ?thesis .
qed

lemma translate_write_result:
  assumes e: "ptr_to_key t p = Some e"
    and existing: "existing = fst (read c (helix_key e) (memory (helix t)))"
    and b: "b = (if truthy existing then the existing else replicate (nat (entry_size e)) 0)"
    and ok: "fst (translate_write c p d offset t)"
  shows "fst (read c (helix_key e) (memory (helix (snd (translate_write c p d offset t)))))
      = Some (py_slice_assign b offset (offset + int (length d)) d)"
    and "ptr_to_key (snd (translate_write c p d offset t)) p = Some (entry_access e)"
proof -
  let ?m1 = "snd (read c (helix_key e) (memory (helix t)))"
  let ?buf = "py_slice_assign b offset (offset + int (length d)) d"
  have w: "fst (translate_write c p d offset t) = fst (write_mem c (helix_key e) (Some ?buf) ?m1)"
    and m: "memory (helix (snd (translate_write c p d offset t)))
      = snd (write_mem c (helix_key e) (Some ?buf) ?m1)"
    and pk: "ptr_to_key (snd (translate_write c p d offset t)) p = Some (entry_access e)"
    using e by (simp_all add: translate_write_def Let_def split_beta existing b)
  from ok w have "fst (write_mem c (helix_key e) (Some ?buf) ?m1)" by simp
  then show "fst (read c (helix_key e) (memory (helix (snd (translate_write c p d offset t)))))
      = Some ?buf"
    unfolding m by (rule read_after_write)
  show "ptr_to_key (snd (translate_write c p d offset t)) p = Some (entry_access e)"
    by (rule pk)
qed

lemma translate_read_result:
  assumes "ptr_to_key t p = Some e"
  shows "fst (translate_read c p sz off t) =
     map_option (\<lambda>bs. py_slice bs off (off + sz)) (fst (read c (helix_key e) (memory (helix t))))"
  using assms
  by (simp add: translate_read_def Let_def split_beta split: option.splits)

lemma translate_write_success:
  assumes "ptr_to_key t p = Some e"
    and "existing = fst (read c (helix_key e) (memory (helix t)))"
    and "b = (if truthy existing then the existing else replicate (nat (entry_size e)) 0)"
  shows "fst (translate_write c p d offset t) \<longleftrightarrow>
     fst (write_mem c (helix_key e)
            (Some (py_slice_assign b offset (offset + int (length d)) d))
            (snd (read c (helix_key e) (memory (helix t)))))"
  using assms by (simp add: translate_write_def Let_def split_beta)

lemma buffer_example_facts:
  "ptr_to_key buffer_example 0x10000000 =
     Some \<lparr>app_pointer = 0x10000000, helix_key = ''mem_0000000010000000_4'', entry_size = 4,
           entry_access_count = 0\<rparr>"
  "memory (helix buffer_example) =
     snd (malloc stored_codec ''mem_0000000010000000_4'' (Some [0, 0, 0, 0])
            (HelixMemoryManager_init (HelixCache_init 512 2048 6000) 8096))"
  "fst (malloc stored_codec ''mem_0000000010000000_4'' (Some [0, 0, 0, 0])
            (HelixMemoryManager_init (HelixCache_init 512 2048 6000) 8096))"
  by (simp_all add: buffer_example_def new_translator_def HelixTranslator_init_def
      HelixSystem_init_def translate_malloc_unfold malloc_success
      data_size_stored mem_key_examples tstat_inc_def replicate_numeral
      HelixMemoryManager_init_def)

lemma buffer_example_read:
  "fst (read stored_codec ''mem_0000000010000000_4'' (memory (helix buffer_example)))
     = Some [0, 0, 0, 0]"
  unfolding buffer_example_facts(2) using buffer_example_facts(3) by (rule read_after_malloc)

lemma buffer_example_write_ok:
  "length d \<le> 100 \<Longrightarrow>
   fst (write_mem stored_codec ''mem_0000000010000000_4'' (Some d)
     (snd (read stored_codec ''mem_0000000010000000_4'' (memory (helix buffer_example)))))"
  by (simp add: write_mem_success read_fields buffer_example_facts malloc_fields
      data_size_stored HelixMemoryManager_init_def)

text \<open>
  Claim C7, as the code has it. For an active pointer whose current buffer is \<open>b\<close> (the
  cached bytes, or zeros of the recorded size when nothing non-empty is cached) and an
  offset between 0 and the length of \<open>b\<close>: when \<^verbatim>\<open>translate_write\<close> returns true, the buffer
  written back is \<open>b\<close> with the data at the positions from the offset on, longer than \<open>b\<close>
  when the data reach past its end and otherwise unchanged, and reading the length of the
  data at that offset returns the data. The witness is the example of the claim: writing
  \<^verbatim>\<open>b"XY"\<close> at offset 2 of four zero bytes.
\<close>

theorem translate_write_splices:
  assumes "ptr_to_key t p = Some e"
    and "existing = fst (read c (helix_key e) (memory (helix t)))"
    and "b = (if truthy existing then the existing else replicate (nat (entry_size e)) 0)"
    and "0 \<le> offset" and "offset \<le> int (length b)"
    and "fst (translate_write c p d offset t)"
  shows "fst (read c (helix_key e) (memory (helix (snd (translate_write c p d offset t)))))
      = Some (take (nat offset) b @ d @ drop (nat offset + length d) b)
    \<and> fst (translate_read c p (int (length d)) offset (snd (translate_write c p d offset t)))
      = Some d"
proof -
  let ?t' = "snd (translate_write c p d offset t)"
  let ?buf = "take (nat offset) b @ d @ drop (nat offset + length d) b"
  have "py_slice_assign b offset (offset + int (length d)) d = ?buf"
    using assms(4,5) by (rule py_slice_assign_within)
  with translate_write_result [OF assms(1,2,3,6)]
  have buf: "fst (read c (helix_key e) (memory (helix ?t'))) = Some ?buf"
    and pk: "ptr_to_key ?t' p = Some (entry_access e)"
    by simp_all
  have "fst (translate_read c p (int (length d)) offset ?t')
      = Some (py_slice ?buf offset (offset + int (length d)))"
    using buf by (simp add: translate_read_result [OF pk])
  also have "py_slice ?buf offset (offset + int (length d)) = d"
    using assms(4,5) by (rule py_slice_of_splice)
  finally show ?thesis
    using buf by simp
qed

theorem translate_write_splices_witness:
  "ptr_to_key buffer_example 0x10000000 =
     Some \<lparr>app_pointer = 0x10000000, helix_key = ''mem_0000000010000000_4'', entry_size = 4,
           entry_access_count = 0\<rparr>
   \<and> fst (read stored_codec ''mem_0000000010000000_4'' (memory (helix buffer_example)))
       = Some [0, 0, 0, 0]
   \<and> fst (translate_write stored_codec 0x10000000 [0x58, 0x59] 2 buffer_example)
   \<and> fst (read stored_codec ''mem_0000000010000000_4''
        (memory (helix (snd (translate_write stored_codec 0x10000000 [0x58, 0x59] 2
           buffer_example))))) = Some [0, 0, 0x58, 0x59]
   \<and> fst (translate_read stored_codec 0x10000000 2 2
        (snd (translate_write stored_codec 0x10000000 [0x58, 0x59] 2 buffer_example)))
       = Some [0x58, 0x59]"
proof -
  let ?e = "\<lparr>app_pointer = 0x10000000, helix_key = ''mem_0000000010000000_4'', entry_size = 4,
           entry_access_count = 0\<rparr>"
  have e: "ptr_to_key buffer_example 0x10000000 = Some ?e"
    by (rule buffer_example_facts)
  have ex: "Some [0, 0, 0, 0] = fst (read stored_codec (helix_key ?e) (memory (helix buffer_example)))"
    by (simp add: buffer_example_read)
  have b: "[0, 0, 0, 0] = (if truthy (Some [0, 0, 0, 0 :: byte]) then the (Some [0, 0, 0, 0])
      else replicate (nat (entry_size ?e)) 0)"
    by (simp add: truthy_def)
  have lo: "(0 :: int) \<le> 2" and hi: "2 \<le> int (length [0, 0, 0, 0 :: byte])"
    by simp_all
  have ok: "fst (translate_write stored_codec 0x10000000 [0x58, 0x59] 2 buffer_example)"
    by (simp add: translate_write_success [OF e ex b] buffer_example_write_ok
        py_slice_assign_def slice_index_def)
  from translate_write_splices [OF e ex b lo hi ok] e ok buffer_example_read
  show ?thesis
    by simp
qed

text \<open>
  The claim as stated fails for an offset beyond the end of the buffer: the slice
  assignment of Python clamps the offset to the length, so writing \<^verbatim>\<open>b"XY"\<close> at offset 10
  of four zero bytes appends the data at position 4, and reading 2 bytes at offset 10
  returns no bytes.
\<close>

theorem write_past_the_end_appends_counterexample:
  "fst (read stored_codec ''mem_0000000010000000_4'' (memory (helix buffer_example)))
       = Some [0, 0, 0, 0]
   \<and> fst (translate_write stored_codec 0x10000000 [0x58, 0x59] 10 buffer_example)
   \<and> fst (read stored_codec ''mem_0000000010000000_4''
        (memory (helix (snd (translate_write stored_codec 0x10000000 [0x58, 0x59] 10
           buffer_example))))) = Some [0, 0, 0, 0, 0x58, 0x59]
   \<and> fst (translate_read stored_codec 0x10000000 2 10
        (snd (translate_write stored_codec 0x10000000 [0x58, 0x59] 10 buffer_example)))
       = Some []"
proof -
  let ?e = "\<lparr>app_pointer = 0x10000000, helix_key = ''mem_0000000010000000_4'', entry_size = 4,
           entry_access_count = 0\<rparr>"
  let ?t' = "snd (translate_write stored_codec 0x10000000 [0x58, 0x59] 10 buffer_example)"
  have e: "ptr_to_key buffer_example 0x10000000 = Some ?e"
    by (rule buffer_example_facts)
  have ex: "Some [0, 0, 0, 0] = fst (read stored_codec (helix_key ?e) (memory (helix buffer_example)))"
    by (simp add: buffer_example_read)
  have b: "[0, 0, 0, 0] = (if truthy (Some [0, 0, 0, 0 :: byte]) then the (Some [0, 0, 0, 0])
      else replicate (nat (entry_size ?e)) 0)"
    by (simp add: truthy_def)
  have ok: "fst (translate_write stored_codec 0x10000000 [0x58, 0x59] 10 buffer_example)"
    by (simp add: translate_write_success [OF e ex b] buffer_example_write_ok
        py_slice_assign_def slice_index_def)
  from translate_write_result [OF e ex b ok]
  have buf: "fst (read stored_codec ''mem_0000000010000000_4'' (memory (helix ?t')))
      = Some [0, 0, 0, 0, 0x58, 0x59]"
    and pk: "ptr_to_key ?t' 0x10000000 = Some (entry_access ?e)"
    by (simp_all add: py_slice_assign_def slice_index_def)
  have "fst (translate_read stored_codec 0x10000000 2 10 ?t') = Some []"
    using buf by (simp add: translate_read_result [OF pk] py_slice_def slice_index_def)
  with ok buf buffer_example_read show ?thesis
    by simp
qed

end
